theory Spec2Isabelle
  imports Main
begin

section \<open>Python values, results and errors\<close>

text \<open>
  The development embeds the class \<^verbatim>\<open>Date\<close> of \<^verbatim>\<open>src/main.py\<close>. The constructor checks
  \<^verbatim>\<open>isinstance(x, int)\<close>; in Python \<^verbatim>\<open>bool\<close> is a subclass of \<^verbatim>\<open>int\<close>, so the instances of
  \<^verbatim>\<open>int\<close> are the integers proper and the two booleans. Arithmetic and comparisons read a
  boolean as 1 or 0 (\<open>int_of\<close>); \<^verbatim>\<open>str\<close> prints it as \<^verbatim>\<open>True\<close> or \<^verbatim>\<open>False\<close>.
\<close>

datatype pyint = PInt int | PBool bool

fun int_of :: "pyint \<Rightarrow> int" where
  "int_of (PInt i) = i"
| "int_of (PBool b) = (if b then 1 else 0)"

text \<open>
  The three private attributes \<^verbatim>\<open>_day\<close>, \<^verbatim>\<open>_month\<close>, \<^verbatim>\<open>_year\<close>. The constructor stores the
  objects it was given, and only after the type check, so each field is an instance of
  \<^verbatim>\<open>int\<close>.
\<close>

record Date =
  day :: pyint
  month :: pyint
  year :: pyint

text \<open>
  An arbitrary Python object handed to a method: an instance of \<^verbatim>\<open>int\<close>, a string, a
  \<^verbatim>\<open>Date\<close>, or anything else (a float, \<^verbatim>\<open>None\<close>, ...).
\<close>

datatype pyobj = IntObj pyint | StrObj string | DateObj Date | OtherObj

fun isinstance_int :: "pyobj \<Rightarrow> bool" where
  "isinstance_int (IntObj _) = True"
| "isinstance_int _ = False"

text \<open>
  Exceptions. \<open>TypeError\<close> and \<open>ValueError\<close> are raised by \<^verbatim>\<open>Date.__init__\<close> with a
  message; \<open>IndexError\<close> is what list indexing raises out of range;
  \<open>IntStrDigitsValueError\<close> is the \<^verbatim>\<open>ValueError\<close> the interpreter raises when an integer of
  more than 4300 decimal digits is converted to a string;
  \<open>DatetimeValueError\<close> is the \<^verbatim>\<open>ValueError\<close> of \<^verbatim>\<open>datetime.date(...)\<close> and
  \<open>DatetimeOverflowError\<close> the \<^verbatim>\<open>OverflowError\<close> of \<^verbatim>\<open>datetime.date(...)\<close>,
  \<^verbatim>\<open>datetime.timedelta(...)\<close> and \<^verbatim>\<open>date + timedelta\<close> (the messages of the interpreter and of
  the library differ between versions and are left out).
\<close>

datatype error =
    TypeError string
  | ValueError string
  | IndexError
  | IntStrDigitsValueError
  | DatetimeValueError
  | DatetimeOverflowError

datatype exc_class = TypeError_class | ValueError_class | IndexError_class | OverflowError_class

fun class_of :: "error \<Rightarrow> exc_class" where
  "class_of (TypeError _) = TypeError_class"
| "class_of (ValueError _) = ValueError_class"
| "class_of IndexError = IndexError_class"
| "class_of IntStrDigitsValueError = ValueError_class"
| "class_of DatetimeValueError = ValueError_class"
| "class_of DatetimeOverflowError = OverflowError_class"

text \<open>
  A binary special method either returns a value or the singleton \<^verbatim>\<open>NotImplemented\<close>.
\<close>

datatype 'a returned = NotImplemented | Value 'a

text \<open>Sequencing of calls that may raise: the first exception propagates.\<close>

definition and_then :: "error + 'a \<Rightarrow> ('a \<Rightarrow> error + 'b) \<Rightarrow> error + 'b" where
  "and_then r f = (case r of Inl e \<Rightarrow> Inl e | Inr v \<Rightarrow> f v)"

text \<open>
  Subscription \<^verbatim>\<open>xs[i]\<close> of a list: positions \<open>0\<close> to \<open>len - 1\<close> are read directly,
  positions \<open>- len\<close> to \<open>- 1\<close> are read from the end, and anything else raises.
\<close>

definition py_index :: "'a list \<Rightarrow> int \<Rightarrow> error + 'a" where
  "py_index xs i =
     (if 0 \<le> i \<and> i < int (length xs) then Inr (xs ! nat i)
      else if - int (length xs) \<le> i \<and> i < 0 then Inr (xs ! nat (int (length xs) + i))
      else Inl IndexError)"

text \<open>
  Python's comparison of tuples of integers: the first position where the two differ
  decides; when one is a prefix of the other the shorter is the smaller.
\<close>

fun tuple_lt :: "int list \<Rightarrow> int list \<Rightarrow> bool" where
  "tuple_lt [] [] = False"
| "tuple_lt [] (y # ys) = True"
| "tuple_lt (x # xs) [] = False"
| "tuple_lt (x # xs) (y # ys) = (if x = y then tuple_lt xs ys else x < y)"

fun tuple_gt :: "int list \<Rightarrow> int list \<Rightarrow> bool" where
  "tuple_gt [] [] = False"
| "tuple_gt [] (y # ys) = False"
| "tuple_gt (x # xs) [] = True"
| "tuple_gt (x # xs) (y # ys) = (if x = y then tuple_gt xs ys else x > y)"

section \<open>Strings and number formatting\<close>

text \<open>
  A Python string is modelled by its UTF-8 encoding, one \<^typ>\<open>char\<close> per byte: an ASCII
  character is itself, a Cyrillic letter is two bytes. No property below counts
  characters.
\<close>

definition digit_char :: "nat \<Rightarrow> char" where
  "digit_char n = ''0123456789'' ! n"

fun digits :: "nat \<Rightarrow> string" where
  "digits n = (if n < 10 then [digit_char n] else digits (n div 10) @ [digit_char (n mod 10)])"

text \<open>
  The interpreter converts an integer to decimal through one routine, which refuses a
  magnitude of more than \<^verbatim>\<open>sys.get_int_max_str_digits()\<close> digits, 4300 unless the program
  changes it (\<^verbatim>\<open>src/main.py\<close> does not); the sign is not counted.
\<close>

definition int_max_str_digits :: nat where
  "int_max_str_digits = 4300"

definition long_to_decimal :: "nat \<Rightarrow> error + string" where
  "long_to_decimal n =
     (if length (digits n) > int_max_str_digits then Inl IntStrDigitsValueError
      else Inr (digits n))"

text \<open>\<^verbatim>\<open>str(i)\<close> of an integer proper.\<close>

definition str_int :: "int \<Rightarrow> error + string" where
  "str_int i =
     and_then (long_to_decimal (nat \<bar>i\<bar>)) (\<lambda>ds. Inr (if i < 0 then ''-'' @ ds else ds))"

text \<open>The replacement field \<^verbatim>\<open>{x}\<close> of an f-string, for an instance of \<^verbatim>\<open>int\<close>.\<close>

fun py_str :: "pyint \<Rightarrow> error + string" where
  "py_str (PInt i) = str_int i"
| "py_str (PBool b) = Inr (if b then ''True'' else ''False'')"

definition zfill :: "nat \<Rightarrow> string \<Rightarrow> string" where
  "zfill w s = replicate (w - length s) (CHR ''0'') @ s"

text \<open>
  The replacement field \<^verbatim>\<open>{x:02d}\<close>: decimal, padded with zeros after the sign to a total
  width of two. A boolean is formatted as the integer it is.
\<close>

definition format_02d :: "pyint \<Rightarrow> error + string" where
  "format_02d x =
     (let v = int_of x
      in and_then (long_to_decimal (nat \<bar>v\<bar>))
           (\<lambda>ds. Inr (if v < 0 then ''-'' @ zfill 1 ds else zfill 2 ds)))"

section \<open>The calendar library: \<^verbatim>\<open>datetime.date\<close> and \<^verbatim>\<open>datetime.timedelta\<close>\<close>

text \<open>
  \<^verbatim>\<open>Date\<close> delegates differences, offsets and weekdays to Python's standard \<^verbatim>\<open>datetime\<close>
  module. The definitions of this section follow the reference implementation of that
  module (\<^verbatim>\<open>Lib/_pydatetime.py\<close> of CPython), function by function and under its names,
  and the C implementation the interpreter loads in its place where the two differ: the
  arguments of \<^verbatim>\<open>datetime.date(...)\<close> are converted to C integers first.
\<close>

definition MINYEAR :: int where "MINYEAR = 1"

definition MAXYEAR :: int where "MAXYEAR = 9999"

definition MAXORDINAL :: int where "MAXORDINAL = 3652059"

definition DAYS_IN_MONTH :: "int list" where
  "DAYS_IN_MONTH = [-1, 31, 28, 31, 30, 31, 30, 31, 31, 30, 31, 30, 31]"

text \<open>
  \<^verbatim>\<open>_DAYS_BEFORE_MONTH\<close> is built by a loop over \<^verbatim>\<open>_DAYS_IN_MONTH[1:]\<close> that appends the
  running sum \<^verbatim>\<open>dbm\<close> and then adds the month's length to it.
\<close>

fun dbm_loop :: "int list \<Rightarrow> int \<Rightarrow> int list" where
  "dbm_loop [] dbm = []"
| "dbm_loop (dim # rest) dbm = dbm # dbm_loop rest (dbm + dim)"

definition DAYS_BEFORE_MONTH :: "int list" where
  "DAYS_BEFORE_MONTH = [-1] @ dbm_loop (tl DAYS_IN_MONTH) 0"

definition is_leap :: "int \<Rightarrow> bool" where
  "is_leap y \<longleftrightarrow> y mod 4 = 0 \<and> (y mod 100 \<noteq> 0 \<or> y mod 400 = 0)"

definition days_before_year :: "int \<Rightarrow> int" where
  "days_before_year y0 = (let y = y0 - 1 in y * 365 + y div 4 - y div 100 + y div 400)"

definition days_in_month :: "int \<Rightarrow> int \<Rightarrow> int" where
  "days_in_month y m = (if m = 2 \<and> is_leap y then 29 else DAYS_IN_MONTH ! nat m)"

definition days_before_month :: "int \<Rightarrow> int \<Rightarrow> int" where
  "days_before_month y m = DAYS_BEFORE_MONTH ! nat m + (if m > 2 \<and> is_leap y then 1 else 0)"

definition ymd2ord :: "int \<Rightarrow> int \<Rightarrow> int \<Rightarrow> int" where
  "ymd2ord y m d = days_before_year y + days_before_month y m + d"

definition DI400Y :: int where "DI400Y = days_before_year 401"

definition DI100Y :: int where "DI100Y = days_before_year 101"

definition DI4Y :: int where "DI4Y = days_before_year 5"

text \<open>
  \<^verbatim>\<open>_ord2ymd\<close>. \<^verbatim>\<open>divmod\<close> is floor division and its remainder, which is what \<open>div\<close> and
  \<open>mod\<close> are on \<^typ>\<open>int\<close> for a positive divisor; \<^verbatim>\<open>(n + 50) >> 5\<close> is division by 32.
\<close>

definition ord2ymd :: "int \<Rightarrow> int \<times> int \<times> int" where
  "ord2ymd n0 =
     (let n = n0 - 1;
          n400 = n div DI400Y; n = n mod DI400Y;
          y = n400 * 400 + 1;
          n100 = n div DI100Y; n = n mod DI100Y;
          n4 = n div DI4Y; n = n mod DI4Y;
          n1 = n div 365; n = n mod 365;
          y = y + (n100 * 100 + n4 * 4 + n1)
      in if n1 = 4 \<or> n100 = 4 then (y - 1, 12, 31)
         else
           let leapyear = (n1 = 3 \<and> (n4 \<noteq> 24 \<or> n100 = 3));
               m = (n + 50) div 32;
               preceding = DAYS_BEFORE_MONTH ! nat m + (if m > 2 \<and> leapyear then 1 else 0)
           in if preceding > n then
                let m = m - 1;
                    preceding = preceding
                      - (DAYS_IN_MONTH ! nat m + (if m = 2 \<and> leapyear then 1 else 0))
                in (y, m, n - preceding + 1)
              else (y, m, n - preceding + 1))"

text \<open>
  A \<^verbatim>\<open>datetime.date\<close> object is its triple (year, month, day). The constructor converts
  its three arguments to C \<^verbatim>\<open>int\<close>, which raises \<^verbatim>\<open>OverflowError\<close> for a value outside
  \<open>-2147483648\<close> to \<open>2147483647\<close>, and then runs the range checks of
  \<^verbatim>\<open>_check_date_fields\<close>.
\<close>

type_synonym pydate = "int \<times> int \<times> int"

definition fits_c_int :: "int \<Rightarrow> bool" where
  "fits_c_int i \<longleftrightarrow> - 2147483648 \<le> i \<and> i \<le> 2147483647"

definition date_new :: "int \<Rightarrow> int \<Rightarrow> int \<Rightarrow> error + pydate" where
  "date_new y m d =
     (if \<not> (fits_c_int y \<and> fits_c_int m \<and> fits_c_int d) then Inl DatetimeOverflowError
      else if \<not> (MINYEAR \<le> y \<and> y \<le> MAXYEAR) then Inl DatetimeValueError
      else if \<not> (1 \<le> m \<and> m \<le> 12) then Inl DatetimeValueError
      else let dim = days_in_month y m
           in if \<not> (1 \<le> d \<and> d \<le> dim) then Inl DatetimeValueError
              else Inr (y, m, d))"

fun toordinal :: "pydate \<Rightarrow> int" where
  "toordinal (y, m, d) = ymd2ord y m d"

definition fromordinal :: "int \<Rightarrow> error + pydate" where
  "fromordinal n = (case ord2ymd n of (y, m, d) \<Rightarrow> date_new y m d)"

text \<open>
  \<^verbatim>\<open>timedelta(days=n)\<close> for an integer \<open>n\<close>; the object is modelled by its \<^verbatim>\<open>days\<close>, the only
  attribute that is read.
\<close>

definition timedelta_new :: "int \<Rightarrow> error + int" where
  "timedelta_new d = (if \<bar>d\<bar> > 999999999 then Inl DatetimeOverflowError else Inr d)"

text \<open>\<^verbatim>\<open>date.__add__\<close> with a timedelta and \<^verbatim>\<open>date.__sub__\<close> with a date.\<close>

definition date_add :: "pydate \<Rightarrow> int \<Rightarrow> error + pydate" where
  "date_add self days =
     (let ordinal = toordinal self + days
      in if 0 < ordinal \<and> ordinal \<le> MAXORDINAL then fromordinal ordinal
         else Inl DatetimeOverflowError)"

definition date_sub :: "pydate \<Rightarrow> pydate \<Rightarrow> error + int" where
  "date_sub self other = timedelta_new (toordinal self - toordinal other)"

definition weekday :: "pydate \<Rightarrow> int" where
  "weekday self = (toordinal self + 6) mod 7"

section \<open>The class \<^verbatim>\<open>Date\<close>\<close>

text \<open>
  The messages of the constructor, in Ukrainian: "Den', misiats' i rik povynni buty tsilymy
  chyslamy.", "Rik povynen buty dodatnim.", "Misiats' povynen buty v diapazoni 1-12.",
  "Den' povynen buty dodatnim." and the f-string
  "U {month}-mu misiatsi ne mozhe buty {day} dniv.".
\<close>

definition msg_not_int :: string where
  "msg_not_int =
     [CHR 0xD0, CHR 0x94, CHR 0xD0, CHR 0xB5, CHR 0xD0, CHR 0xBD, CHR 0xD1, CHR 0x8C] @ '', '' @
     [CHR 0xD0, CHR 0xBC, CHR 0xD1, CHR 0x96, CHR 0xD1, CHR 0x81, CHR 0xD1, CHR 0x8F, CHR 0xD1,
     CHR 0x86, CHR 0xD1, CHR 0x8C] @ '' '' @ [CHR 0xD1, CHR 0x96] @ '' '' @ [CHR 0xD1, CHR 0x80,
     CHR 0xD1, CHR 0x96, CHR 0xD0, CHR 0xBA] @ '' '' @ [CHR 0xD0, CHR 0xBF, CHR 0xD0, CHR 0xBE,
     CHR 0xD0, CHR 0xB2, CHR 0xD0, CHR 0xB8, CHR 0xD0, CHR 0xBD, CHR 0xD0, CHR 0xBD, CHR 0xD1,
     CHR 0x96] @ '' '' @ [CHR 0xD0, CHR 0xB1, CHR 0xD1, CHR 0x83, CHR 0xD1, CHR 0x82, CHR 0xD0,
     CHR 0xB8] @ '' '' @ [CHR 0xD1, CHR 0x86, CHR 0xD1, CHR 0x96, CHR 0xD0, CHR 0xBB, CHR 0xD0,
     CHR 0xB8, CHR 0xD0, CHR 0xBC, CHR 0xD0, CHR 0xB8] @ '' '' @ [CHR 0xD1, CHR 0x87, CHR 0xD0,
     CHR 0xB8, CHR 0xD1, CHR 0x81, CHR 0xD0, CHR 0xBB, CHR 0xD0, CHR 0xB0, CHR 0xD0, CHR 0xBC,
     CHR 0xD0, CHR 0xB8] @ ''.''"

definition msg_year :: string where
  "msg_year =
     [CHR 0xD0, CHR 0xA0, CHR 0xD1, CHR 0x96, CHR 0xD0, CHR 0xBA] @ '' '' @ [CHR 0xD0, CHR 0xBF,
     CHR 0xD0, CHR 0xBE, CHR 0xD0, CHR 0xB2, CHR 0xD0, CHR 0xB8, CHR 0xD0, CHR 0xBD, CHR 0xD0,
     CHR 0xB5, CHR 0xD0, CHR 0xBD] @ '' '' @ [CHR 0xD0, CHR 0xB1, CHR 0xD1, CHR 0x83, CHR 0xD1,
     CHR 0x82, CHR 0xD0, CHR 0xB8] @ '' '' @ [CHR 0xD0, CHR 0xB4, CHR 0xD0, CHR 0xBE, CHR 0xD0,
     CHR 0xB4, CHR 0xD0, CHR 0xB0, CHR 0xD1, CHR 0x82, CHR 0xD0, CHR 0xBD, CHR 0xD1, CHR 0x96,
     CHR 0xD0, CHR 0xBC] @ ''.''"

definition msg_month :: string where
  "msg_month =
     [CHR 0xD0, CHR 0x9C, CHR 0xD1, CHR 0x96, CHR 0xD1, CHR 0x81, CHR 0xD1, CHR 0x8F, CHR 0xD1,
     CHR 0x86, CHR 0xD1, CHR 0x8C] @ '' '' @ [CHR 0xD0, CHR 0xBF, CHR 0xD0, CHR 0xBE, CHR 0xD0,
     CHR 0xB2, CHR 0xD0, CHR 0xB8, CHR 0xD0, CHR 0xBD, CHR 0xD0, CHR 0xB5, CHR 0xD0, CHR 0xBD] @
     '' '' @ [CHR 0xD0, CHR 0xB1, CHR 0xD1, CHR 0x83, CHR 0xD1, CHR 0x82, CHR 0xD0, CHR 0xB8] @
     '' '' @ [CHR 0xD0, CHR 0xB2] @ '' '' @ [CHR 0xD0, CHR 0xB4, CHR 0xD1, CHR 0x96, CHR 0xD0,
     CHR 0xB0, CHR 0xD0, CHR 0xBF, CHR 0xD0, CHR 0xB0, CHR 0xD0, CHR 0xB7, CHR 0xD0, CHR 0xBE,
     CHR 0xD0, CHR 0xBD, CHR 0xD1, CHR 0x96] @ '' 1-12.''"

definition msg_day :: string where
  "msg_day =
     [CHR 0xD0, CHR 0x94, CHR 0xD0, CHR 0xB5, CHR 0xD0, CHR 0xBD, CHR 0xD1, CHR 0x8C] @ '' '' @
     [CHR 0xD0, CHR 0xBF, CHR 0xD0, CHR 0xBE, CHR 0xD0, CHR 0xB2, CHR 0xD0, CHR 0xB8, CHR 0xD0,
     CHR 0xBD, CHR 0xD0, CHR 0xB5, CHR 0xD0, CHR 0xBD] @ '' '' @ [CHR 0xD0, CHR 0xB1, CHR 0xD1,
     CHR 0x83, CHR 0xD1, CHR 0x82, CHR 0xD0, CHR 0xB8] @ '' '' @ [CHR 0xD0, CHR 0xB4, CHR 0xD0,
     CHR 0xBE, CHR 0xD0, CHR 0xB4, CHR 0xD0, CHR 0xB0, CHR 0xD1, CHR 0x82, CHR 0xD0, CHR 0xBD,
     CHR 0xD1, CHR 0x96, CHR 0xD0, CHR 0xBC] @ ''.''"

definition msg_max_day :: "pyint \<Rightarrow> pyint \<Rightarrow> error + string" where
  "msg_max_day m d =
     and_then (py_str m) (\<lambda>sm.
     and_then (py_str d) (\<lambda>sd.
     Inr ([CHR 0xD0, CHR 0xA3] @ '' '' @ sm
          @ ''-'' @ [CHR 0xD0, CHR 0xBC, CHR 0xD1, CHR 0x83] @ '' '' @ [CHR 0xD0, CHR 0xBC, CHR 0xD1,
       CHR 0x96, CHR 0xD1, CHR 0x81, CHR 0xD1, CHR 0x8F, CHR 0xD1, CHR 0x86, CHR 0xD1, CHR 0x96]
       @ '' '' @ [CHR 0xD0, CHR 0xBD, CHR 0xD0, CHR 0xB5] @ '' '' @ [CHR 0xD0, CHR 0xBC,
       CHR 0xD0, CHR 0xBE, CHR 0xD0, CHR 0xB6, CHR 0xD0, CHR 0xB5] @ '' '' @ [CHR 0xD0,
       CHR 0xB1, CHR 0xD1, CHR 0x83, CHR 0xD1, CHR 0x82, CHR 0xD0, CHR 0xB8] @ '' ''
          @ sd
          @ '' '' @ [CHR 0xD0, CHR 0xB4, CHR 0xD0, CHR 0xBD, CHR 0xD1, CHR 0x96, CHR 0xD0, CHR 0xB2]
       @ ''.'')))"

text \<open>\<^verbatim>\<open>Date._is_leap_year\<close>, the static method, on the integer value of its argument.\<close>

definition private_is_leap_year :: "int \<Rightarrow> bool" where
  "private_is_leap_year y \<longleftrightarrow> y mod 4 = 0 \<and> (y mod 100 \<noteq> 0 \<or> y mod 400 = 0)"

text \<open>
  \<^verbatim>\<open>Date.__init__\<close>: the type check on the three arguments together, then the range
  checks in the order of the source. Past the type check each argument is an instance of
  \<^verbatim>\<open>int\<close>, which the \<open>case\<close> reads off; its last line is never reached. The message of
  the last check is an f-string, built before the exception is raised.
\<close>

definition Date_init :: "pyobj \<Rightarrow> pyobj \<Rightarrow> pyobj \<Rightarrow> error + Date" where
  "Date_init day0 month0 year0 =
     (if \<not> list_all isinstance_int [day0, month0, year0] then Inl (TypeError msg_not_int)
      else
        case (day0, month0, year0) of
          (IntObj d, IntObj m, IntObj y) \<Rightarrow>
            if int_of y \<le> 0 then Inl (ValueError msg_year)
            else if int_of m < 1 \<or> int_of m > 12 then Inl (ValueError msg_month)
            else if int_of d < 1 then Inl (ValueError msg_day)
            else
              let max_day =
                   (if int_of m = 2 then (if private_is_leap_year (int_of y) then 29 else 28)
                    else if int_of m \<in> set [4, 6, 9, 11] then 30
                    else 31)
              in if int_of d > max_day
                 then and_then (msg_max_day m d) (\<lambda>msg. Inl (ValueError msg))
                 else Inr \<lparr>day = d, month = m, year = y\<rparr>
        | _ \<Rightarrow> Inl (TypeError msg_not_int))"

text \<open>\<^verbatim>\<open>Date.__str__\<close>.\<close>

definition Date_str :: "Date \<Rightarrow> error + string" where
  "Date_str self =
     and_then (format_02d (day self)) (\<lambda>dd.
     and_then (format_02d (month self)) (\<lambda>mm.
     and_then (py_str (year self)) (\<lambda>yyyy.
     Inr (dd @ ''.'' @ mm @ ''.'' @ yyyy))))"

text \<open>\<^verbatim>\<open>Date.__eq__\<close>, \<^verbatim>\<open>Date.__lt__\<close>, \<^verbatim>\<open>Date.__gt__\<close>.\<close>

definition Date_eq :: "Date \<Rightarrow> pyobj \<Rightarrow> bool returned" where
  "Date_eq self other =
     (case other of
        DateObj b \<Rightarrow>
          Value ([int_of (day self), int_of (month self), int_of (year self)]
                   = [int_of (day b), int_of (month b), int_of (year b)])
      | _ \<Rightarrow> NotImplemented)"

definition Date_lt :: "Date \<Rightarrow> pyobj \<Rightarrow> bool returned" where
  "Date_lt self other =
     (case other of
        DateObj b \<Rightarrow>
          Value (tuple_lt [int_of (year self), int_of (month self), int_of (day self)]
                          [int_of (year b), int_of (month b), int_of (day b)])
      | _ \<Rightarrow> NotImplemented)"

definition Date_gt :: "Date \<Rightarrow> pyobj \<Rightarrow> bool returned" where
  "Date_gt self other =
     (case other of
        DateObj b \<Rightarrow>
          Value (tuple_gt [int_of (year self), int_of (month self), int_of (day self)]
                          [int_of (year b), int_of (month b), int_of (day b)])
      | _ \<Rightarrow> NotImplemented)"

text \<open>The call \<^verbatim>\<open>datetime.date(self._year, self._month, self._day)\<close> made by three methods.\<close>

definition as_date :: "Date \<Rightarrow> error + pydate" where
  "as_date self = date_new (int_of (year self)) (int_of (month self)) (int_of (day self))"

text \<open>\<^verbatim>\<open>Date.__sub__\<close>.\<close>

definition Date_sub :: "Date \<Rightarrow> pyobj \<Rightarrow> error + int returned" where
  "Date_sub self other =
     (case other of
        DateObj b \<Rightarrow>
          and_then (as_date self) (\<lambda>d1.
          and_then (as_date b) (\<lambda>d2.
          and_then (date_sub d1 d2) (\<lambda>delta. Inr (Value delta))))
      | _ \<Rightarrow> Inr NotImplemented)"

text \<open>
  \<^verbatim>\<open>Date.__add__\<close>. The left operand of \<^verbatim>\<open>+\<close>, the date, is built before the timedelta; the
  result goes through the constructor of \<^verbatim>\<open>Date\<close> again.
\<close>

definition Date_add :: "Date \<Rightarrow> pyobj \<Rightarrow> error + Date returned" where
  "Date_add self days =
     (case days of
        IntObj n \<Rightarrow>
          and_then (as_date self) (\<lambda>d0.
          and_then (timedelta_new (int_of n)) (\<lambda>delta.
          and_then (date_add d0 delta) (\<lambda>(y, m, d).
          and_then (Date_init (IntObj (PInt d)) (IntObj (PInt m)) (IntObj (PInt y))) (\<lambda>r.
          Inr (Value r)))))
      | _ \<Rightarrow> Inr NotImplemented)"

text \<open>\<^verbatim>\<open>Date.is_leap_year\<close>.\<close>

definition is_leap_year :: "Date \<Rightarrow> bool" where
  "is_leap_year self = private_is_leap_year (int_of (year self))"

text \<open>
  \<^verbatim>\<open>Date.month_name\<close>. The table holds the genitive month names "sichnia", "liutoho",
  "bereznia", "kvitnia", "travnia", "chervnia", "lypnia", "serpnia", "veresnia", "zhovtnia",
  "lystopada", "hrudnia"; the suffix is " rik". The fields of the f-string are evaluated
  from left to right.
\<close>

definition months :: "string list" where
  "months =
     [[CHR 0xD1, CHR 0x81, CHR 0xD1, CHR 0x96, CHR 0xD1, CHR 0x87, CHR 0xD0, CHR 0xBD,
       CHR 0xD1, CHR 0x8F],
      [CHR 0xD0, CHR 0xBB, CHR 0xD1, CHR 0x8E, CHR 0xD1, CHR 0x82, CHR 0xD0, CHR 0xBE,
       CHR 0xD0, CHR 0xB3, CHR 0xD0, CHR 0xBE],
      [CHR 0xD0, CHR 0xB1, CHR 0xD0, CHR 0xB5, CHR 0xD1, CHR 0x80, CHR 0xD0, CHR 0xB5,
       CHR 0xD0, CHR 0xB7, CHR 0xD0, CHR 0xBD, CHR 0xD1, CHR 0x8F],
      [CHR 0xD0, CHR 0xBA, CHR 0xD0, CHR 0xB2, CHR 0xD1, CHR 0x96, CHR 0xD1, CHR 0x82,
       CHR 0xD0, CHR 0xBD, CHR 0xD1, CHR 0x8F],
      [CHR 0xD1, CHR 0x82, CHR 0xD1, CHR 0x80, CHR 0xD0, CHR 0xB0, CHR 0xD0, CHR 0xB2,
       CHR 0xD0, CHR 0xBD, CHR 0xD1, CHR 0x8F],
      [CHR 0xD1, CHR 0x87, CHR 0xD0, CHR 0xB5, CHR 0xD1, CHR 0x80, CHR 0xD0, CHR 0xB2,
       CHR 0xD0, CHR 0xBD, CHR 0xD1, CHR 0x8F],
      [CHR 0xD0, CHR 0xBB, CHR 0xD0, CHR 0xB8, CHR 0xD0, CHR 0xBF, CHR 0xD0, CHR 0xBD,
       CHR 0xD1, CHR 0x8F],
      [CHR 0xD1, CHR 0x81, CHR 0xD0, CHR 0xB5, CHR 0xD1, CHR 0x80, CHR 0xD0, CHR 0xBF,
       CHR 0xD0, CHR 0xBD, CHR 0xD1, CHR 0x8F],
      [CHR 0xD0, CHR 0xB2, CHR 0xD0, CHR 0xB5, CHR 0xD1, CHR 0x80, CHR 0xD0, CHR 0xB5,
       CHR 0xD1, CHR 0x81, CHR 0xD0, CHR 0xBD, CHR 0xD1, CHR 0x8F],
      [CHR 0xD0, CHR 0xB6, CHR 0xD0, CHR 0xBE, CHR 0xD0, CHR 0xB2, CHR 0xD1, CHR 0x82,
       CHR 0xD0, CHR 0xBD, CHR 0xD1, CHR 0x8F],
      [CHR 0xD0, CHR 0xBB, CHR 0xD0, CHR 0xB8, CHR 0xD1, CHR 0x81, CHR 0xD1, CHR 0x82,
       CHR 0xD0, CHR 0xBE, CHR 0xD0, CHR 0xBF, CHR 0xD0, CHR 0xB0, CHR 0xD0, CHR 0xB4, CHR 0xD0,
       CHR 0xB0],
      [CHR 0xD0, CHR 0xB3, CHR 0xD1, CHR 0x80, CHR 0xD1, CHR 0x83, CHR 0xD0, CHR 0xB4,
       CHR 0xD0, CHR 0xBD, CHR 0xD1, CHR 0x8F]]"

definition month_name :: "Date \<Rightarrow> error + string" where
  "month_name self =
     and_then (py_str (day self)) (\<lambda>sd.
     and_then (py_index months (int_of (month self) - 1)) (\<lambda>name.
     and_then (py_str (year self)) (\<lambda>sy.
     Inr (sd @ '' '' @ name @ '' '' @ sy
       @ '' '' @ [CHR 0xD1, CHR 0x80, CHR 0xD1, CHR 0x96, CHR 0xD0, CHR 0xBA]))))"

text \<open>
  \<^verbatim>\<open>Date.day_of_week\<close>. The table holds "Ponedilok", "Vivtorok", "Sereda", "Chetver",
  "P'iatnytsia" (with U+2019 for the apostrophe), "Subota", "Nedilia".
\<close>

definition days :: "string list" where
  "days =
     [[CHR 0xD0, CHR 0x9F, CHR 0xD0, CHR 0xBE, CHR 0xD0, CHR 0xBD, CHR 0xD0, CHR 0xB5,
       CHR 0xD0, CHR 0xB4, CHR 0xD1, CHR 0x96, CHR 0xD0, CHR 0xBB, CHR 0xD0, CHR 0xBE, CHR 0xD0,
       CHR 0xBA],
      [CHR 0xD0, CHR 0x92, CHR 0xD1, CHR 0x96, CHR 0xD0, CHR 0xB2, CHR 0xD1, CHR 0x82,
       CHR 0xD0, CHR 0xBE, CHR 0xD1, CHR 0x80, CHR 0xD0, CHR 0xBE, CHR 0xD0, CHR 0xBA],
      [CHR 0xD0, CHR 0xA1, CHR 0xD0, CHR 0xB5, CHR 0xD1, CHR 0x80, CHR 0xD0, CHR 0xB5,
       CHR 0xD0, CHR 0xB4, CHR 0xD0, CHR 0xB0],
      [CHR 0xD0, CHR 0xA7, CHR 0xD0, CHR 0xB5, CHR 0xD1, CHR 0x82, CHR 0xD0, CHR 0xB2,
       CHR 0xD0, CHR 0xB5, CHR 0xD1, CHR 0x80],
      [CHR 0xD0, CHR 0x9F, CHR 0xE2, CHR 0x80, CHR 0x99, CHR 0xD1, CHR 0x8F, CHR 0xD1,
       CHR 0x82, CHR 0xD0, CHR 0xBD, CHR 0xD0, CHR 0xB8, CHR 0xD1, CHR 0x86, CHR 0xD1, CHR 0x8F],
      [CHR 0xD0, CHR 0xA1, CHR 0xD1, CHR 0x83, CHR 0xD0, CHR 0xB1, CHR 0xD0, CHR 0xBE,
       CHR 0xD1, CHR 0x82, CHR 0xD0, CHR 0xB0],
      [CHR 0xD0, CHR 0x9D, CHR 0xD0, CHR 0xB5, CHR 0xD0, CHR 0xB4, CHR 0xD1, CHR 0x96,
       CHR 0xD0, CHR 0xBB, CHR 0xD1, CHR 0x8F]]"

definition day_of_week :: "Date \<Rightarrow> error + string" where
  "day_of_week self = and_then (as_date self) (\<lambda>d. py_index days (weekday d))"

section \<open>The calendar of the specification\<close>

text \<open>
  The proleptic Gregorian calendar as the specification words it, on triples
  (year, month, day) with any integer year: the length of a month, what a calendar day
  is, the day after and the day before, and the day \<open>n\<close> calendar days away.
\<close>

definition leap_rule :: "int \<Rightarrow> bool" where
  "leap_rule y \<longleftrightarrow> 4 dvd y \<and> (\<not> 100 dvd y \<or> 400 dvd y)"

definition max_day_for :: "int \<Rightarrow> int \<Rightarrow> int" where
  "max_day_for m y =
     (if m = 2 then (if leap_rule y then 29 else 28)
      else if m = 4 \<or> m = 6 \<or> m = 9 \<or> m = 11 then 30
      else 31)"

fun calendar_day :: "pydate \<Rightarrow> bool" where
  "calendar_day (y, m, d) \<longleftrightarrow> 1 \<le> m \<and> m \<le> 12 \<and> 1 \<le> d \<and> d \<le> max_day_for m y"

fun next_day :: "pydate \<Rightarrow> pydate" where
  "next_day (y, m, d) =
     (if d < max_day_for m y then (y, m, d + 1)
      else if m < 12 then (y, m + 1, 1)
      else (y + 1, 1, 1))"

fun prev_day :: "pydate \<Rightarrow> pydate" where
  "prev_day (y, m, d) =
     (if 1 < d then (y, m, d - 1)
      else if 1 < m then (y, m - 1, max_day_for (m - 1) y)
      else (y - 1, 12, 31))"

definition days_later :: "int \<Rightarrow> pydate \<Rightarrow> pydate" where
  "days_later n x = (if 0 \<le> n then (next_day ^^ nat n) x else (prev_day ^^ nat (- n)) x)"

text \<open>The \<^verbatim>\<open>Date\<close> that holds a triple as integers proper.\<close>

fun of_ymd :: "pydate \<Rightarrow> Date" where
  "of_ymd (y, m, d) = \<lparr>day = PInt d, month = PInt m, year = PInt y\<rparr>"

section \<open>Decimal numerals of the specification\<close>

text \<open>
  What it means for a string to be the decimal numeral of a number: every character is a
  digit, and reading the digits from the left gives the number.
\<close>

definition is_digit :: "char \<Rightarrow> bool" where
  "is_digit c \<longleftrightarrow> c \<in> set ''0123456789''"

definition digit_value :: "char \<Rightarrow> nat" where
  "digit_value c = of_char c - 48"

definition decimal_value :: "string \<Rightarrow> nat" where
  "decimal_value s = foldl (\<lambda>acc c. 10 * acc + digit_value c) 0 s"

section \<open>The calendar library meets the calendar of the specification\<close>

lemma DAYS_BEFORE_MONTH_eq:
  "DAYS_BEFORE_MONTH = [-1, 0, 31, 59, 90, 120, 151, 181, 212, 243, 273, 304, 334]"
  by (simp add: DAYS_BEFORE_MONTH_def DAYS_IN_MONTH_def)

lemma DI_values: "DI400Y = 146097" "DI100Y = 36524" "DI4Y = 1461"
  by (simp_all add: DI400Y_def DI100Y_def DI4Y_def days_before_year_def)

lemma is_leap_rule: "is_leap y = leap_rule y"
  by (simp add: is_leap_def leap_rule_def dvd_eq_mod_eq_0)

lemma private_is_leap_rule: "private_is_leap_year y = leap_rule y"
  by (simp add: private_is_leap_year_def leap_rule_def dvd_eq_mod_eq_0)

lemma month_cases:
  "1 \<le> m \<Longrightarrow> m \<le> 12 \<Longrightarrow>
   m = 1 \<or> m = 2 \<or> m = 3 \<or> m = 4 \<or> m = 5 \<or> m = 6 \<or> m = 7 \<or> m = 8 \<or> m = 9 \<or> m = 10 \<or> m = 11 \<or> m = (12::int)"
  by arith

lemma days_in_month_eq: "1 \<le> m \<Longrightarrow> m \<le> 12 \<Longrightarrow> days_in_month y m = max_day_for m y"
  using month_cases [of m]
  by (auto simp: days_in_month_def max_day_for_def is_leap_rule DAYS_IN_MONTH_def)

lemma days_before_month_Suc:
  "1 \<le> m \<Longrightarrow> m \<le> 11 \<Longrightarrow> days_before_month y (m + 1) = days_before_month y m + max_day_for m y"
  using month_cases [of m]
  by (auto simp: days_before_month_def max_day_for_def is_leap_rule DAYS_BEFORE_MONTH_eq)

lemma days_before_month_1: "days_before_month y 1 = 0"
  by (simp add: days_before_month_def DAYS_BEFORE_MONTH_eq)

lemma days_before_month_12: "days_before_month y 12 = (if leap_rule y then 335 else 334)"
  by (simp add: days_before_month_def DAYS_BEFORE_MONTH_eq is_leap_rule)

lemma div_succ:
  fixes a k :: int
  assumes "1 < k"
  shows "(a + 1) div k = a div k + (if k dvd a + 1 then 1 else 0)"
proof -
  define q where "q = a div k"
  define r where "r = a mod k"
  have a: "a = k * q + r" and r: "0 \<le> r" "r < k"
    using assms by (simp_all add: q_def r_def)
  show ?thesis
  proof (cases "r = k - 1")
    case True
    then have "a + 1 = k * (q + 1) + 0" using a by (simp add: algebra_simps)
    then have "(a + 1) div k = q + 1" "(a + 1) mod k = 0"
      using assms by (auto intro: int_div_pos_eq int_mod_pos_eq)
    then show ?thesis by (simp add: q_def dvd_eq_mod_eq_0)
  next
    case False
    then have "a + 1 = k * q + (r + 1)" "0 \<le> r + 1" "r + 1 < k" using a r by simp_all
    then have "(a + 1) div k = q" "(a + 1) mod k = r + 1"
      by (auto intro: int_div_pos_eq int_mod_pos_eq)
    then show ?thesis using r by (simp add: q_def dvd_eq_mod_eq_0)
  qed
qed

lemma days_before_year_Suc:
  "days_before_year (y + 1) = days_before_year y + (if leap_rule y then 366 else 365)"
proof -
  define q4 q100 q400 where "q4 = (y - 1) div 4" and "q100 = (y - 1) div 100"
    and "q400 = (y - 1) div 400"
  define p4 p100 p400 where "p4 = y div 4" and "p100 = y div 100" and "p400 = y div 400"
  define b4 b100 b400 where "b4 \<longleftrightarrow> 4 dvd y" and "b100 \<longleftrightarrow> 100 dvd y"
    and "b400 \<longleftrightarrow> 400 dvd y"
  have "(100::int) dvd 400" "(4::int) dvd 100" by simp_all
  then have c: "b400 \<longrightarrow> b100" "b100 \<longrightarrow> b4"
    unfolding b4_def b100_def b400_def
    by (blast intro: dvd_trans)+
  have s: "days_before_year (y + 1) = y * 365 + p4 - p100 + p400"
    by (simp add: days_before_year_def p4_def p100_def p400_def)
  have t: "days_before_year y = (y - 1) * 365 + q4 - q100 + q400"
    by (simp add: days_before_year_def Let_def q4_def q100_def q400_def)
  have l: "leap_rule y \<longleftrightarrow> b4 \<and> (\<not> b100 \<or> b400)"
    by (simp add: leap_rule_def b4_def b100_def b400_def)
  have "p4 = q4 + (if b4 then 1 else 0)"
    unfolding p4_def q4_def b4_def using div_succ [of 4 "y - 1"] by simp
  moreover have "p100 = q100 + (if b100 then 1 else 0)"
    unfolding p100_def q100_def b100_def using div_succ [of 100 "y - 1"] by simp
  moreover have "p400 = q400 + (if b400 then 1 else 0)"
    unfolding p400_def q400_def b400_def using div_succ [of 400 "y - 1"] by simp
  ultimately show ?thesis
    unfolding s t l using c by (cases b4; cases b100; cases b400; simp)
qed

lemma days_before_year_pred:
  "days_before_year (y - 1) = days_before_year y - (if leap_rule (y - 1) then 366 else 365)"
  using days_before_year_Suc [of "y - 1"] by simp

lemma toordinal_next_day:
  assumes "calendar_day x"
  shows "calendar_day (next_day x) \<and> toordinal (next_day x) = toordinal x + 1"
proof -
  obtain y m d where x: "x = (y, m, d)" by (cases x)
  from assms x have v: "1 \<le> m" "m \<le> 12" "1 \<le> d" "d \<le> max_day_for m y" by simp_all
  have p: "1 \<le> max_day_for k y" for k by (simp add: max_day_for_def)
  show ?thesis
  proof (cases "d < max_day_for m y")
    case True
    with v show ?thesis by (simp add: x ymd2ord_def)
  next
    case False
    then have d: "d = max_day_for m y" using v by simp
    show ?thesis
    proof (cases "m < 12")
      case True
      then show ?thesis
        using v d p [of "m + 1"] days_before_month_Suc [of m y]
        by (simp add: x ymd2ord_def)
    next
      case False
      then have m: "m = 12" using v by simp
      have "max_day_for 12 y = 31" by (simp add: max_day_for_def)
      then show ?thesis
        using d m days_before_year_Suc [of y]
        by (simp add: x ymd2ord_def days_before_month_1 days_before_month_12 max_day_for_def)
    qed
  qed
qed

lemma toordinal_prev_day:
  assumes "calendar_day x"
  shows "calendar_day (prev_day x) \<and> toordinal (prev_day x) = toordinal x - 1"
proof -
  obtain y m d where x: "x = (y, m, d)" by (cases x)
  from assms x have v: "1 \<le> m" "m \<le> 12" "1 \<le> d" "d \<le> max_day_for m y" by simp_all
  have p: "1 \<le> max_day_for k y" for k by (simp add: max_day_for_def)
  show ?thesis
  proof (cases "1 < d")
    case True
    with v show ?thesis by (simp add: x ymd2ord_def)
  next
    case False
    then have d: "d = 1" using v by simp
    show ?thesis
    proof (cases "1 < m")
      case True
      then show ?thesis
        using v d p [of "m - 1"] days_before_month_Suc [of "m - 1" y]
        by (simp add: x ymd2ord_def)
    next
      case False
      then have m: "m = 1" using v by simp
      show ?thesis
        using d m days_before_year_pred [of y]
        by (simp add: x ymd2ord_def days_before_month_1 days_before_month_12 max_day_for_def)
    qed
  qed
qed

lemma funpow_next_day:
  "calendar_day x \<Longrightarrow>
     calendar_day ((next_day ^^ k) x) \<and> toordinal ((next_day ^^ k) x) = toordinal x + int k"
  by (induction k) (simp_all add: toordinal_next_day)

lemma funpow_prev_day:
  "calendar_day x \<Longrightarrow>
     calendar_day ((prev_day ^^ k) x) \<and> toordinal ((prev_day ^^ k) x) = toordinal x - int k"
  by (induction k) (simp_all add: toordinal_prev_day)

lemma toordinal_days_later:
  assumes "calendar_day x"
  shows "calendar_day (days_later n x)" and "toordinal (days_later n x) = toordinal x + n"
  using funpow_next_day [OF assms, of "nat n"] funpow_prev_day [OF assms, of "nat (- n)"]
  by (simp_all add: days_later_def)

lemma days_before_year_mono_strict:
  assumes "y < y'"
  shows "days_before_year (y + 1) \<le> days_before_year y'"
proof -
  from assms have "y + 1 \<le> y'" by simp
  then show ?thesis
  proof (induction y' rule: int_ge_induct)
    case base
    show ?case by simp
  next
    case (step i)
    have "days_before_year i \<le> days_before_year (i + 1)"
      by (simp add: days_before_year_Suc)
    with step show ?case by simp
  qed
qed

lemma days_before_month_mono:
  assumes "1 \<le> m" "m \<le> m'" "m' \<le> 12"
  shows "days_before_month y m \<le> days_before_month y m'"
  using assms(2,1,3)
proof (induction m' rule: int_ge_induct)
  case base
  show ?case by simp
next
  case (step i)
  have "0 \<le> max_day_for i y" by (simp add: max_day_for_def)
  with step days_before_month_Suc [of i y] show ?case by simp
qed

lemma yday_bounds:
  assumes "calendar_day (y, m, d)"
  shows "1 \<le> days_before_month y m + d"
    and "days_before_month y m + d \<le> (if leap_rule y then 366 else 365)"
proof -
  from assms have v: "1 \<le> m" "m \<le> 12" "1 \<le> d" "d \<le> max_day_for m y" by simp_all
  have "days_before_month y 1 \<le> days_before_month y m"
    using v by (intro days_before_month_mono) simp_all
  then show "1 \<le> days_before_month y m + d"
    using v by (simp add: days_before_month_1)
  show "days_before_month y m + d \<le> (if leap_rule y then 366 else 365)"
  proof (cases "m = 12")
    case True
    with v show ?thesis by (simp add: days_before_month_12 max_day_for_def)
  next
    case False
    with v have "days_before_month y (m + 1) \<le> days_before_month y 12"
      by (intro days_before_month_mono) simp_all
    with v False days_before_month_Suc [of m y] show ?thesis
      by (simp add: days_before_month_12 split: if_splits)
  qed
qed

lemma toordinal_year_bounds:
  assumes "calendar_day (y, m, d)"
  shows "days_before_year y < toordinal (y, m, d)"
    and "toordinal (y, m, d) \<le> days_before_year (y + 1)"
  using yday_bounds [OF assms]
  by (simp_all add: ymd2ord_def days_before_year_Suc)

lemma toordinal_inj:
  assumes "calendar_day x" "calendar_day x'" "toordinal x = toordinal x'"
  shows "x = x'"
proof -
  obtain y m d where x: "x = (y, m, d)" by (cases x)
  obtain y' m' d' where x': "x' = (y', m', d')" by (cases x')
  note c = assms(1) [unfolded x] and c' = assms(2) [unfolded x']
  have v: "1 \<le> m" "m \<le> 12" "1 \<le> d" "d \<le> max_day_for m y" using c by simp_all
  have v': "1 \<le> m'" "m' \<le> 12" "1 \<le> d'" "d' \<le> max_day_for m' y'" using c' by simp_all
  have e: "toordinal (y, m, d) = toordinal (y', m', d')" using assms(3) x x' by simp
  have "\<not> y < y'"
    using toordinal_year_bounds [OF c] toordinal_year_bounds [OF c']
      days_before_year_mono_strict [of y y'] e by auto
  moreover have "\<not> y' < y"
    using toordinal_year_bounds [OF c] toordinal_year_bounds [OF c']
      days_before_year_mono_strict [of y' y] e by auto
  ultimately have y: "y' = y" by simp
  have f: "days_before_month y m + d = days_before_month y m' + d'"
    using e by (simp add: ymd2ord_def y)
  have "\<not> m < m'"
  proof
    assume "m < m'"
    then have "days_before_month y (m + 1) \<le> days_before_month y m'"
      using v v' by (intro days_before_month_mono) simp_all
    moreover have "days_before_month y (m + 1) = days_before_month y m + max_day_for m y"
      using v v' \<open>m < m'\<close> by (intro days_before_month_Suc) simp_all
    ultimately show False using f v v' by simp
  qed
  moreover have "\<not> m' < m"
  proof
    assume "m' < m"
    then have "days_before_month y (m' + 1) \<le> days_before_month y m"
      using v v' by (intro days_before_month_mono) simp_all
    moreover have "days_before_month y (m' + 1) = days_before_month y m' + max_day_for m' y"
      using v v' \<open>m' < m\<close> by (intro days_before_month_Suc) simp_all
    ultimately show False using f v v' y by simp
  qed
  ultimately have "m' = m" by simp
  with f y show ?thesis by (simp add: x x')
qed

lemma days_before_year_1: "days_before_year 1 = 0"
  by (simp add: days_before_year_def)

lemma days_before_year_10000: "days_before_year 10000 = 3652059"
  by (simp add: days_before_year_def)

lemma toordinal_pos_iff:
  assumes "calendar_day (y, m, d)"
  shows "1 \<le> toordinal (y, m, d) \<longleftrightarrow> 1 \<le> y"
proof
  assume "1 \<le> toordinal (y, m, d)"
  show "1 \<le> y"
  proof (rule ccontr)
    assume "\<not> 1 \<le> y"
    then have "y < 1" by simp
    from days_before_year_mono_strict [OF this] toordinal_year_bounds(2) [OF assms]
    have "toordinal (y, m, d) \<le> 0" by (simp add: days_before_year_1)
    with \<open>1 \<le> toordinal (y, m, d)\<close> show False by simp
  qed
next
  assume "1 \<le> y"
  then have "y = 1 \<or> 0 < y - 1 + 1 \<and> 1 < y" by arith
  then have "days_before_year 1 \<le> days_before_year y"
    using days_before_year_mono_strict [of 0 y] by auto
  with toordinal_year_bounds(1) [OF assms] show "1 \<le> toordinal (y, m, d)"
    by (simp add: days_before_year_1)
qed

lemma toordinal_max_iff:
  assumes "calendar_day (y, m, d)"
  shows "toordinal (y, m, d) \<le> MAXORDINAL \<longleftrightarrow> y \<le> MAXYEAR"
proof
  assume a: "toordinal (y, m, d) \<le> MAXORDINAL"
  show "y \<le> MAXYEAR"
  proof (rule ccontr)
    assume "\<not> y \<le> MAXYEAR"
    then have "y = 10000 \<or> 9999 < y - 1" by (simp add: MAXYEAR_def) arith
    then have "days_before_year 10000 \<le> days_before_year y"
      using days_before_year_mono_strict [of 9999 "y"] by auto
    with toordinal_year_bounds(1) [OF assms] a show False
      by (simp add: days_before_year_10000 MAXORDINAL_def)
  qed
next
  assume "y \<le> MAXYEAR"
  then have "y < 10000" by (simp add: MAXYEAR_def)
  from days_before_year_mono_strict [OF this] toordinal_year_bounds(2) [OF assms]
  show "toordinal (y, m, d) \<le> MAXORDINAL"
    by (simp add: days_before_year_10000 MAXORDINAL_def)
qed

lemma days_before_year_decomp:
  fixes q a b c :: int
  assumes "0 \<le> a" "a \<le> 3" "0 \<le> b" "b \<le> 24" "0 \<le> c" "c \<le> 3"
  shows "days_before_year (400 * q + 100 * a + 4 * b + c + 1)
           = 146097 * q + 36524 * a + 1461 * b + 365 * c"
proof -
  define t where "t = 400 * q + 100 * a + 4 * b + c"
  have "t = 4 * (100 * q + 25 * a + b) + c" by (simp add: t_def)
  then have d4: "t div 4 = 100 * q + 25 * a + b"
    using assms by (intro int_div_pos_eq [where r = c]) simp_all
  have "t = 100 * (4 * q + a) + (4 * b + c)" by (simp add: t_def)
  then have d100: "t div 100 = 4 * q + a"
    using assms by (intro int_div_pos_eq [where r = "4 * b + c"]) simp_all
  have "t = 400 * q + (100 * a + 4 * b + c)" by (simp add: t_def)
  then have d400: "t div 400 = q"
    using assms by (intro int_div_pos_eq [where r = "100 * a + 4 * b + c"]) simp_all
  have "days_before_year (t + 1) = t * 365 + t div 4 - t div 100 + t div 400"
    by (simp add: days_before_year_def)
  also have "\<dots> = 146097 * q + 36524 * a + 1461 * b + 365 * c"
    unfolding d4 d100 d400 by (simp add: t_def)
  finally show ?thesis by (simp add: t_def)
qed

lemma leap_rule_decomp:
  fixes q a b c :: int
  assumes "0 \<le> a" "a \<le> 3" "0 \<le> b" "b \<le> 24" "0 \<le> c" "c \<le> 3"
  shows "leap_rule (400 * q + 100 * a + 4 * b + c + 1) \<longleftrightarrow> c = 3 \<and> (b \<noteq> 24 \<or> a = 3)"
proof -
  define t where "t = 400 * q + 100 * a + 4 * b + c + 1"
  show ?thesis
  proof (cases "c = 3")
    case False
    have "t = 4 * (100 * q + 25 * a + b) + (c + 1)" by (simp add: t_def)
    then have "t mod 4 = c + 1"
      using assms False by (intro int_mod_pos_eq [where q = "100 * q + 25 * a + b"]) simp_all
    then have "\<not> 4 dvd t" using assms by (simp add: dvd_eq_mod_eq_0)
    with False show ?thesis by (simp add: leap_rule_def t_def)
  next
    case c: True
    have "t = 4 * (100 * q + 25 * a + b + 1)" by (simp add: t_def c)
    then have t4: "4 dvd t" by simp
    show ?thesis
    proof (cases "b = 24")
      case False
      have "t = 100 * (4 * q + a) + (4 * b + 4)" by (simp add: t_def c)
      then have "t mod 100 = 4 * b + 4"
        using assms False by (intro int_mod_pos_eq [where q = "4 * q + a"]) simp_all
      then have "\<not> 100 dvd t" using assms by (simp add: dvd_eq_mod_eq_0)
      with False c t4 show ?thesis by (simp add: leap_rule_def t_def)
    next
      case b: True
      show ?thesis
      proof (cases "a = 3")
        case False
        have "t = 400 * q + (100 * a + 100)" by (simp add: t_def c b)
        then have "t mod 400 = 100 * a + 100"
          using assms False by (intro int_mod_pos_eq [where q = q]) simp_all
        then have n400: "\<not> 400 dvd t" using assms by (simp add: dvd_eq_mod_eq_0)
        have "t = 100 * (4 * q + a + 1)" by (simp add: t_def c b)
        then have "100 dvd t" by simp
        with n400 False c b show ?thesis by (simp add: leap_rule_def t_def)
      next
        case True
        have "t = 400 * (q + 1)" by (simp add: t_def c b True)
        then have "400 dvd t" by simp
        with t4 True c b show ?thesis by (simp add: leap_rule_def t_def)
      qed
    qed
  qed
qed

lemma ord2ymd_month_part:
  fixes r y :: int
  assumes r: "0 \<le> r" "r < 365"
  defines "lp \<equiv> leap_rule y"
  defines "m0 \<equiv> (r + 50) div 32"
  defines "pre0 \<equiv> DAYS_BEFORE_MONTH ! nat m0 + (if m0 > 2 \<and> lp then 1 else 0)"
  defines "pre1 \<equiv> pre0 - (DAYS_IN_MONTH ! nat (m0 - 1) + (if m0 - 1 = 2 \<and> lp then 1 else 0))"
  shows "if pre0 > r
         then calendar_day (y, m0 - 1, r - pre1 + 1) \<and> days_before_month y (m0 - 1) + (r - pre1 + 1) = r + 1
         else calendar_day (y, m0, r - pre0 + 1) \<and> days_before_month y m0 + (r - pre0 + 1) = r + 1"
proof -
  have b: "32 * m0 \<le> r + 50" "r + 50 < 32 * m0 + 32"
    unfolding m0_def by arith+
  with r have "1 \<le> m0" "m0 \<le> 12" by arith+
  from month_cases [OF this] b r show ?thesis
    by (elim disjE)
      (simp_all add: pre0_def pre1_def DAYS_BEFORE_MONTH_eq DAYS_IN_MONTH_def
        days_before_month_def max_day_for_def is_leap_rule lp_def)
qed

lemma ord2ymd_correct:
  "calendar_day (ord2ymd n) \<and> toordinal (ord2ymd n) = n"
proof -
  define q r400 where "q = (n - 1) div 146097" and "r400 = (n - 1) mod 146097"
  define a r100 where "a = r400 div 36524" and "r100 = r400 mod 36524"
  define b r4 where "b = r100 div 1461" and "r4 = r100 mod 1461"
  define c r1 where "c = r4 div 365" and "r1 = r4 mod 365"
  have e400: "n - 1 = 146097 * q + r400" and b400: "0 \<le> r400" "r400 < 146097"
    by (simp_all add: q_def r400_def)
  have e100: "r400 = 36524 * a + r100" and b100: "0 \<le> r100" "r100 < 36524"
    by (simp_all add: a_def r100_def)
  have e4: "r100 = 1461 * b + r4" and b4: "0 \<le> r4" "r4 < 1461"
    by (simp_all add: b_def r4_def)
  have e1: "r4 = 365 * c + r1" and b1: "0 \<le> r1" "r1 < 365"
    by (simp_all add: c_def r1_def)
  have ra: "0 \<le> a" "a \<le> 4" using e100 b100 b400 by arith+
  have rb: "0 \<le> b" "b \<le> 24" using e4 b4 b100 by arith+
  have rc: "0 \<le> c" "c \<le> 4" using e1 b1 b4 by arith+
  define Y where "Y = 400 * q + 100 * a + 4 * b + c + 1"
  define lp where "lp \<longleftrightarrow> c = 3 \<and> (b \<noteq> 24 \<or> a = 3)"
  define m0 where "m0 = (r1 + 50) div 32"
  define pre0 where "pre0 = DAYS_BEFORE_MONTH ! nat m0 + (if m0 > 2 \<and> lp then 1 else 0)"
  define pre1 where
    "pre1 = pre0 - (DAYS_IN_MONTH ! nat (m0 - 1) + (if m0 - 1 = 2 \<and> lp then 1 else 0))"
  have unfold: "ord2ymd n =
      (if c = 4 \<or> a = 4 then (Y - 1, 12, 31)
       else if pre0 > r1 then (Y, m0 - 1, r1 - pre1 + 1) else (Y, m0, r1 - pre0 + 1))"
    unfolding ord2ymd_def Let_def DI_values
      q_def [symmetric] r400_def [symmetric] a_def [symmetric] r100_def [symmetric]
      b_def [symmetric] r4_def [symmetric] c_def [symmetric] r1_def [symmetric]
      lp_def [symmetric] m0_def [symmetric] pre0_def [symmetric] pre1_def [symmetric]
    by (simp add: Y_def algebra_simps)
  show ?thesis
  proof (cases "a = 4")
    case True
    then have "r100 = 0" using e100 b100 b400 by arith
    then have z: "b = 0" "c = 0" "r1 = 0" using e4 b4 rb e1 b1 rc by arith+
    have n: "n = 146097 * q + 146097" using e400 e100 True \<open>r100 = 0\<close> by simp
    have "Y - 1 = 400 * q + 100 * 3 + 4 * 24 + 3 + 1" by (simp add: Y_def True z)
    then have "days_before_year (Y - 1) = 146097 * q + 36524 * 3 + 1461 * 24 + 365 * 3"
      and "leap_rule (Y - 1)"
      using days_before_year_decomp [of 3 24 3 q] leap_rule_decomp [of 3 24 3 q] by simp_all
    then show ?thesis
      unfolding unfold using True n
      by (simp add: ymd2ord_def days_before_month_12 max_day_for_def)
  next
    case a: False
    then have ra': "a \<le> 3" using ra by simp
    show ?thesis
    proof (cases "c = 4")
      case True
      then have r1: "r1 = 0" using e1 b1 b4 by arith
      then have "b \<noteq> 24" using e4 e1 True b100 by arith
      then have rb': "b \<le> 23" using rb by simp
      have n: "n = 146097 * q + 36524 * a + 1461 * b + 1461"
        using e400 e100 e4 e1 True r1 by simp
      have "Y - 1 = 400 * q + 100 * a + 4 * b + 3 + 1" by (simp add: Y_def True)
      then have "days_before_year (Y - 1) = 146097 * q + 36524 * a + 1461 * b + 365 * 3"
        and "leap_rule (Y - 1)"
        using days_before_year_decomp [of a b 3 q] leap_rule_decomp [of a b 3 q]
          ra ra' rb rb' \<open>b \<noteq> 24\<close> by simp_all
      then show ?thesis
        unfolding unfold using True n
        by (simp add: ymd2ord_def days_before_month_12 max_day_for_def)
    next
      case False
      then have rc': "c \<le> 3" using rc by simp
      have dby: "days_before_year Y = 146097 * q + 36524 * a + 1461 * b + 365 * c"
        unfolding Y_def using ra ra' rb rc rc' by (intro days_before_year_decomp)
      have lp: "lp = leap_rule Y"
        unfolding Y_def lp_def using ra ra' rb rc rc' by (intro leap_rule_decomp [symmetric])
      have n: "n = 146097 * q + 36524 * a + 1461 * b + 365 * c + r1 + 1"
        using e400 e100 e4 e1 by simp
      note mp = ord2ymd_month_part [OF b1, of Y, folded lp m0_def, folded pre0_def, folded pre1_def]
      show ?thesis
      proof (cases "pre0 > r1")
        case True
        with mp have "calendar_day (Y, m0 - 1, r1 - pre1 + 1)"
          and "days_before_month Y (m0 - 1) + (r1 - pre1 + 1) = r1 + 1" by simp_all
        then show ?thesis
          unfolding unfold using a False True n dby by (simp add: ymd2ord_def)
      next
        case False
        with mp have "calendar_day (Y, m0, r1 - pre0 + 1)"
          and "days_before_month Y m0 + (r1 - pre0 + 1) = r1 + 1" by simp_all
        then show ?thesis
          unfolding unfold using a \<open>c \<noteq> 4\<close> False n dby by (simp add: ymd2ord_def)
      qed
    qed
  qed
qed

section \<open>The constructor, the formats and the delegating methods\<close>

lemma tuple_lt3:
  "tuple_lt [a, b, c] [a', b', c'] \<longleftrightarrow> a < a' \<or> a = a' \<and> (b < b' \<or> b = b' \<and> c < c')"
  by simp

lemma tuple_gt3:
  "tuple_gt [a, b, c] [a', b', c'] \<longleftrightarrow> a > a' \<or> a = a' \<and> (b > b' \<or> b = b' \<and> c > c')"
  by simp

lemma and_then_simps:
  "and_then (Inl e) f = Inl e" "and_then (Inr v) f = f v"
  by (simp_all add: and_then_def)

lemma and_then_raise: "and_then r (\<lambda>x. Inl (f x)) \<noteq> Inr a"
  by (cases r) (simp_all add: and_then_def)

lemma Date_init_int:
  "Date_init (IntObj (PInt d)) (IntObj (PInt m)) (IntObj (PInt y)) =
     (if y \<le> 0 then Inl (ValueError msg_year)
      else if m < 1 \<or> 12 < m then Inl (ValueError msg_month)
      else if d < 1 then Inl (ValueError msg_day)
      else if max_day_for m y < d
        then and_then (msg_max_day (PInt m) (PInt d)) (\<lambda>msg. Inl (ValueError msg))
      else Inr \<lparr>day = PInt d, month = PInt m, year = PInt y\<rparr>)"
  by (simp add: Date_init_def max_day_for_def private_is_leap_rule)

lemma Date_init_valid:
  assumes "Date_init (IntObj (PInt d)) (IntObj (PInt m)) (IntObj (PInt y)) = Inr a"
  shows "a = \<lparr>day = PInt d, month = PInt m, year = PInt y\<rparr>"
    and "1 \<le> y" and "calendar_day (y, m, d)"
  using assms unfolding Date_init_int by (simp_all add: and_then_raise split: if_splits)

lemma digit_cases: "k < 10 \<Longrightarrow> k \<in> {0, 1, 2, 3, 4, 5, 6, 7, 8, 9::nat}"
  by auto

lemma digit_char_props:
  assumes "n < 10"
  shows "digit_value (digit_char n) = n" and "is_digit (digit_char n)"
    and "digit_char n = CHR ''0'' \<longleftrightarrow> n = 0"
  using digit_cases [OF assms]
  by (auto simp: digit_char_def digit_value_def is_digit_def)

lemma decimal_value_snoc:
  "decimal_value (s @ [c]) = 10 * decimal_value s + digit_value c"
  by (simp add: decimal_value_def)

lemma digits_props:
  "decimal_value (digits n) = n \<and> list_all is_digit (digits n) \<and> digits n \<noteq> []
     \<and> (0 < n \<longrightarrow> hd (digits n) \<noteq> CHR ''0'')"
proof (induction n rule: digits.induct)
  case (1 n)
  show ?case
  proof (cases "n < 10")
    case True
    then have "digits n = [digit_char n]" by simp
    with True digit_char_props [of n] show ?thesis
      by (simp add: decimal_value_def)
  next
    case False
    then have d: "digits n = digits (n div 10) @ [digit_char (n mod 10)]"
      by (subst digits.simps) simp
    have "0 < n div 10" using False by simp
    with 1 False have ih: "decimal_value (digits (n div 10)) = n div 10"
      "list_all is_digit (digits (n div 10))" "digits (n div 10) \<noteq> []"
      "hd (digits (n div 10)) \<noteq> CHR ''0''" by simp_all
    show ?thesis
      unfolding d using ih digit_char_props [of "n mod 10"]
      by (simp add: decimal_value_snoc)
  qed
qed

lemma digits_two:
  assumes "n < 100"
  shows "zfill 2 (digits n) = [digit_char (n div 10), digit_char (n mod 10)]"
    and "length (digits n) \<le> 2"
proof -
  have "zfill 2 (digits n) = [digit_char (n div 10), digit_char (n mod 10)]
      \<and> length (digits n) \<le> 2"
  proof (cases "n < 10")
    case True
    then show ?thesis by (simp add: zfill_def digit_char_def)
  next
    case False
    then have "digits n = digits (n div 10) @ [digit_char (n mod 10)]"
      by (subst digits.simps) simp
    moreover have "n div 10 < 10" using assms by simp
    ultimately show ?thesis by (simp add: zfill_def)
  qed
  then show "zfill 2 (digits n) = [digit_char (n div 10), digit_char (n mod 10)]"
    and "length (digits n) \<le> 2" by simp_all
qed

lemma digits_length_lower: "10 ^ k \<le> n \<Longrightarrow> k < length (digits n)"
proof (induction k arbitrary: n)
  case 0
  show ?case by (subst digits.simps) simp
next
  case (Suc k)
  from Suc.prems have p: "10 * 10 ^ k \<le> n" by simp
  have q: "(1::nat) \<le> 10 ^ k" by simp
  have n: "\<not> n < 10" using p q by linarith
  from Suc.prems have "10 ^ k \<le> n div 10" by simp
  then have "k < length (digits (n div 10))" by (rule Suc.IH)
  moreover have "digits n = digits (n div 10) @ [digit_char (n mod 10)]"
    using n by (subst digits.simps) simp
  ultimately show ?case by simp
qed

lemma digits_ten_power: "k < length (digits (nat ((10::int) ^ k)))"
  by (rule digits_length_lower) (simp add: nat_power_eq)

lemma ten_power_ge_1: "(1::int) \<le> 10 ^ k"
  by simp

lemma digits_long_ge_100:
  assumes "2 < length (digits n)"
  shows "100 \<le> n"
  using digits_two(2) [of n] assms by (cases "n < 100") simp_all

lemma long_to_decimal_cases:
  "long_to_decimal n =
     (if 4300 < length (digits n) then Inl IntStrDigitsValueError else Inr (digits n))"
  by (simp add: long_to_decimal_def int_max_str_digits_def)

lemma long_to_decimal_small: "n < 100 \<Longrightarrow> long_to_decimal n = Inr (digits n)"
  using digits_two(2) [of n] by (simp add: long_to_decimal_cases)

lemma str_int_nonneg:
  "0 \<le> i \<Longrightarrow> str_int i =
     (if 4300 < length (digits (nat i)) then Inl IntStrDigitsValueError
      else Inr (digits (nat i)))"
  by (simp add: str_int_def long_to_decimal_cases and_then_simps)

lemma str_int_small: "0 \<le> i \<Longrightarrow> i < 100 \<Longrightarrow> str_int i = Inr (digits (nat i))"
  using digits_two(2) [of "nat i"] by (simp add: str_int_nonneg)

lemma format_02d_two:
  assumes "0 \<le> d" "d < 100"
  shows "format_02d (PInt d) = Inr [digit_char (nat d div 10), digit_char (nat d mod 10)]"
  using assms digits_two(1) [of "nat d"]
  by (simp add: format_02d_def long_to_decimal_small and_then_simps)

lemma msg_max_day_error:
  "msg_max_day m d = Inl e \<Longrightarrow> e = IntStrDigitsValueError"
proof -
  have p: "py_str x = Inl e \<Longrightarrow> e = IntStrDigitsValueError" for x e
    by (cases x)
      (auto simp: str_int_def long_to_decimal_def and_then_def split: if_splits)
  assume "msg_max_day m d = Inl e"
  then show ?thesis
    by (cases "py_str m"; cases "py_str d")
      (auto simp: msg_max_day_def and_then_def dest: p)
qed

lemma max_day_for_le: "max_day_for m y \<le> 31"
  by (simp add: max_day_for_def)

lemma months_length: "length months = 12"
  by (simp add: months_def)

lemma date_new_ok:
  assumes "calendar_day (y, m, d)" "1 \<le> y" "y \<le> 9999"
  shows "date_new y m d = Inr (y, m, d)"
  using assms max_day_for_le [of m y]
  by (simp add: date_new_def fits_c_int_def MINYEAR_def MAXYEAR_def days_in_month_eq)

lemma date_new_big:
  assumes "calendar_day (y, m, d)" "9999 < y"
  shows "date_new y m d =
           Inl (if y \<le> 2147483647 then DatetimeValueError else DatetimeOverflowError)"
  using assms max_day_for_le [of m y]
  by (simp add: date_new_def fits_c_int_def MAXYEAR_def)

lemma as_date_ok:
  assumes "Date_init (IntObj (PInt d)) (IntObj (PInt m)) (IntObj (PInt y)) = Inr a" "y \<le> 9999"
  shows "as_date a = Inr (y, m, d)"
  using Date_init_valid [OF assms(1)] assms(2) by (simp add: as_date_def date_new_ok)

lemma as_date_big:
  assumes "Date_init (IntObj (PInt d)) (IntObj (PInt m)) (IntObj (PInt y)) = Inr a" "9999 < y"
  shows "as_date a =
           Inl (if y \<le> 2147483647 then DatetimeValueError else DatetimeOverflowError)"
  using Date_init_valid [OF assms(1)] assms(2) by (simp add: as_date_def date_new_big)

lemma toordinal_range:
  assumes "calendar_day (y, m, d)" "1 \<le> y" "y \<le> 9999"
  shows "1 \<le> toordinal (y, m, d)" and "toordinal (y, m, d) \<le> 3652059"
  using toordinal_pos_iff [OF assms(1)] toordinal_max_iff [OF assms(1)] assms(2,3)
  by (simp_all add: MAXORDINAL_def MAXYEAR_def)

lemma ord2ymd_days_later:
  assumes "calendar_day x"
  shows "ord2ymd (toordinal x + n) = days_later n x"
  using ord2ymd_correct [of "toordinal x + n"] toordinal_days_later [OF assms, of n]
  by (intro toordinal_inj) simp_all

lemma days_later_year:
  assumes "calendar_day x"
  shows "1 \<le> fst (days_later n x) \<longleftrightarrow> 1 \<le> toordinal x + n"
    and "fst (days_later n x) \<le> 9999 \<longleftrightarrow> toordinal x + n \<le> 3652059"
proof -
  obtain y' m' d' where t: "days_later n x = (y', m', d')" by (cases "days_later n x")
  from toordinal_days_later [OF assms, of n] t
  have c: "calendar_day (y', m', d')" and o: "toordinal (y', m', d') = toordinal x + n"
    by simp_all
  from toordinal_pos_iff [OF c] o show "1 \<le> fst (days_later n x) \<longleftrightarrow> 1 \<le> toordinal x + n"
    by (simp add: t)
  from toordinal_max_iff [OF c] o
  show "fst (days_later n x) \<le> 9999 \<longleftrightarrow> toordinal x + n \<le> 3652059"
    by (simp add: t MAXORDINAL_def MAXYEAR_def)
qed

lemma Date_init_of_ymd:
  assumes "calendar_day t" "1 \<le> fst t"
  shows "Date_init (IntObj (day (of_ymd t))) (IntObj (month (of_ymd t))) (IntObj (year (of_ymd t)))
           = Inr (of_ymd t)"
proof -
  obtain y m d where t: "t = (y, m, d)" by (cases t)
  with assms show ?thesis by (simp add: Date_init_int)
qed

lemma Date_add_int:
  assumes init: "Date_init (IntObj (PInt d)) (IntObj (PInt m)) (IntObj (PInt y)) = Inr a"
    and y: "y \<le> 9999"
  shows "Date_add a (IntObj (PInt n)) =
           (if 1 \<le> fst (days_later n (y, m, d)) \<and> fst (days_later n (y, m, d)) \<le> 9999
            then Inr (Value (of_ymd (days_later n (y, m, d))))
            else Inl DatetimeOverflowError)"
proof -
  define t where "t = days_later n (y, m, d)"
  define k where "k = ymd2ord y m d"
  note v = Date_init_valid(2,3) [OF init]
  have r: "1 \<le> k" "k \<le> 3652059"
    using toordinal_range [OF v(2) v(1) y] by (simp_all add: k_def)
  have yr: "1 \<le> fst t \<longleftrightarrow> 1 \<le> k + n" "fst t \<le> 9999 \<longleftrightarrow> k + n \<le> 3652059"
    using days_later_year [OF v(2), of n] by (simp_all add: k_def t_def)
  note ad = as_date_ok [OF init y]
  have ct: "calendar_day t" unfolding t_def by (rule toordinal_days_later(1) [OF v(2)])
  have o: "ord2ymd (k + n) = t"
    using ord2ymd_days_later [OF v(2), of n] by (simp add: k_def t_def)
  have da: "date_add (y, m, d) n =
      (if 0 < k + n \<and> k + n \<le> 3652059 then fromordinal (k + n) else Inl DatetimeOverflowError)"
    by (simp add: date_add_def Let_def k_def MAXORDINAL_def)
  show ?thesis
  proof (cases "1 \<le> k + n \<and> k + n \<le> 3652059")
    case True
    then have n: "\<bar>n\<bar> \<le> 999999999" using r by arith
    obtain y' m' d' where t: "t = (y', m', d')" by (cases t)
    have yt: "1 \<le> y'" "y' \<le> 9999" using True yr by (simp_all add: t)
    have f: "fromordinal (k + n) = Inr t"
      using ct yt by (simp add: fromordinal_def o t date_new_ok)
    have da': "date_add (y, m, d) n = Inr (y', m', d')"
      unfolding da using True f by (simp add: t)
    have di: "Date_init (IntObj (PInt d')) (IntObj (PInt m')) (IntObj (PInt y')) = Inr (of_ymd t)"
      using Date_init_of_ymd [OF ct] yt by (simp add: t)
    have "Date_add a (IntObj (PInt n)) = Inr (Value (of_ymd t))"
      using n by (simp add: Date_add_def ad timedelta_new_def and_then_def da' di)
    with True yr show ?thesis by (simp add: t_def)
  next
    case False
    have "Date_add a (IntObj (PInt n)) = Inl DatetimeOverflowError"
    proof (cases "\<bar>n\<bar> > 999999999")
      case True
      then show ?thesis by (simp add: Date_add_def ad timedelta_new_def and_then_def)
    next
      case n: False
      have "date_add (y, m, d) n = Inl DatetimeOverflowError"
        unfolding da using False by auto
      with n show ?thesis by (simp add: Date_add_def ad timedelta_new_def and_then_def)
    qed
    with False yr show ?thesis by (simp add: t_def)
  qed
qed

lemma Date_sub_int:
  assumes a: "Date_init (IntObj (PInt da)) (IntObj (PInt ma)) (IntObj (PInt ya)) = Inr a"
    and ya: "ya \<le> 9999"
    and b: "Date_init (IntObj (PInt db)) (IntObj (PInt mb)) (IntObj (PInt yb)) = Inr b"
    and yb: "yb \<le> 9999"
  shows "Date_sub a (DateObj b) = Inr (Value (toordinal (ya, ma, da) - toordinal (yb, mb, db)))"
proof -
  note va = Date_init_valid(2,3) [OF a] and vb = Date_init_valid(2,3) [OF b]
  note ra = toordinal_range [OF va(2) va(1) ya] and rb = toordinal_range [OF vb(2) vb(1) yb]
  have "\<bar>toordinal (ya, ma, da) - toordinal (yb, mb, db)\<bar> \<le> 999999999"
    using ra rb by arith
  then show ?thesis
    by (simp add: Date_sub_def as_date_ok [OF a ya] as_date_ok [OF b yb] and_then_def
        date_sub_def timedelta_new_def)
qed

lemma days_length: "length days = 7"
  by (simp add: days_def)

lemma weekday_range: "0 \<le> weekday x" "weekday x < 7"
  by (simp_all add: weekday_def)

lemma weekday_days_later:
  assumes "calendar_day x"
  shows "weekday (days_later n x) = (weekday x + n) mod 7"
  using toordinal_days_later(2) [OF assms, of n]
  by (simp add: weekday_def mod_simps add.assoc add.commute)

lemma weekday_next_day:
  assumes "calendar_day x"
  shows "weekday (next_day x) = (weekday x + 1) mod 7"
  using toordinal_next_day [OF assms]
  by (simp add: weekday_def mod_simps)

lemma weekday_2025_04_16: "weekday (2025, 4, 16) = 2"
  by (simp add: weekday_def ymd2ord_def days_before_year_def days_before_month_def
      DAYS_BEFORE_MONTH_eq is_leap_def)

section \<open>The claims\<close>

subsection \<open>C1: validated construction\<close>

lemma raise_max_day_class:
  "\<exists>e. and_then (msg_max_day m d) (\<lambda>msg. Inl (ValueError msg)) = Inl e
        \<and> class_of e = ValueError_class"
  by (cases "msg_max_day m d") (auto simp: and_then_def dest: msg_max_day_error)


lemma Date_init_long_day:
  assumes "1 \<le> y" "1 \<le> m" "m \<le> 12" "1 \<le> d" "4300 < length (digits (nat d))"
  shows "Date_init (IntObj (PInt d)) (IntObj (PInt m)) (IntObj (PInt y))
           = Inl IntStrDigitsValueError"
proof -
  have "100 \<le> nat d" using assms(5) by (intro digits_long_ge_100) simp
  with max_day_for_le [of m y] have "max_day_for m y < d" by simp
  moreover have "msg_max_day (PInt m) (PInt d) = Inl IntStrDigitsValueError"
    using assms by (simp add: msg_max_day_def str_int_small str_int_nonneg and_then_simps)
  ultimately show ?thesis
    using assms by (simp add: Date_init_int and_then_simps)
qed

text \<open>
  Claim C1 says that in the day-overflow case the error names the month and the day. The
  message is the f-string of the source, built before the exception is raised, and the
  interpreter refuses to print an integer of more than 4300 digits: for the day
  \<open>10 ^ 4300\<close> in January 2025 the constructor raises the interpreter's \<open>ValueError\<close>, which
  names neither.
\<close>

theorem C1_create_counterexample:
  "Date_init (IntObj (PInt (10 ^ 4300))) (IntObj (PInt 1)) (IntObj (PInt 2025))
     = Inl IntStrDigitsValueError"
  by (rule Date_init_long_day [OF _ _ _ ten_power_ge_1 digits_ten_power]) simp_all

text \<open>
  Claim C1, amended. For all integers day, month and year, the constructor succeeds iff
  \<open>year \<ge> 1\<close>, \<open>1 \<le> month \<le> 12\<close> and \<open>1 \<le> day \<le> max_day_for month year\<close>, where
  \<open>max_day_for\<close> is 29 for February of a leap year, 28 for February otherwise, 30 for
  April, June, September and November and 31 for every other month; the date it returns
  holds exactly the three fields; every other combination raises an error of class
  \<open>ValueError\<close>; and when only the day is too large, the message contains the month and
  the day in decimal provided the day has at most 4300 digits (for a longer day the error
  is the interpreter's, for the conversion of the day to a string).
\<close>

theorem C1_create:
  fixes d m y :: int
  shows "((\<exists>a. Date_init (IntObj (PInt d)) (IntObj (PInt m)) (IntObj (PInt y)) = Inr a)
            \<longleftrightarrow> 1 \<le> y \<and> 1 \<le> m \<and> m \<le> 12 \<and> 1 \<le> d \<and> d \<le> max_day_for m y)
    \<and> (\<forall>a. Date_init (IntObj (PInt d)) (IntObj (PInt m)) (IntObj (PInt y)) = Inr a
            \<longrightarrow> a = \<lparr>day = PInt d, month = PInt m, year = PInt y\<rparr>)
    \<and> (\<not> (1 \<le> y \<and> 1 \<le> m \<and> m \<le> 12 \<and> 1 \<le> d \<and> d \<le> max_day_for m y)
            \<longrightarrow> (\<exists>e. Date_init (IntObj (PInt d)) (IntObj (PInt m)) (IntObj (PInt y)) = Inl e
                      \<and> class_of e = ValueError_class))
    \<and> (1 \<le> y \<and> 1 \<le> m \<and> m \<le> 12 \<and> 1 \<le> d \<and> max_day_for m y < d
          \<and> length (digits (nat d)) \<le> 4300
            \<longrightarrow> Date_init (IntObj (PInt d)) (IntObj (PInt m)) (IntObj (PInt y))
                  = Inl (ValueError
                      ([CHR 0xD0, CHR 0xA3] @ '' '' @ digits (nat m)
                       @ ''-'' @ [CHR 0xD0, CHR 0xBC, CHR 0xD1, CHR 0x83] @ '' '' @ [CHR 0xD0, CHR 0xBC, CHR 0xD1,
       CHR 0x96, CHR 0xD1, CHR 0x81, CHR 0xD1, CHR 0x8F, CHR 0xD1, CHR 0x86, CHR 0xD1, CHR 0x96]
       @ '' '' @ [CHR 0xD0, CHR 0xBD, CHR 0xD0, CHR 0xB5] @ '' '' @ [CHR 0xD0, CHR 0xBC,
       CHR 0xD0, CHR 0xBE, CHR 0xD0, CHR 0xB6, CHR 0xD0, CHR 0xB5] @ '' '' @ [CHR 0xD0,
       CHR 0xB1, CHR 0xD1, CHR 0x83, CHR 0xD1, CHR 0x82, CHR 0xD0, CHR 0xB8] @ '' ''
                       @ digits (nat d)
                       @ '' '' @ [CHR 0xD0, CHR 0xB4, CHR 0xD0, CHR 0xBD, CHR 0xD1, CHR 0x96, CHR 0xD0, CHR 0xB2]
       @ ''.'')))
    \<and> (1 \<le> y \<and> 1 \<le> m \<and> m \<le> 12 \<and> 1 \<le> d \<and> max_day_for m y < d
          \<and> 4300 < length (digits (nat d))
            \<longrightarrow> Date_init (IntObj (PInt d)) (IntObj (PInt m)) (IntObj (PInt y))
                  = Inl IntStrDigitsValueError)"
proof -
  let ?init = "Date_init (IntObj (PInt d)) (IntObj (PInt m)) (IntObj (PInt y))"
  let ?valid = "1 \<le> y \<and> 1 \<le> m \<and> m \<le> 12 \<and> 1 \<le> d \<and> d \<le> max_day_for m y"
  have ok: "?init = Inr \<lparr>day = PInt d, month = PInt m, year = PInt y\<rparr>" if ?valid
    using that by (simp add: Date_init_int)
  have bad: "\<exists>e. ?init = Inl e \<and> class_of e = ValueError_class" if "\<not> ?valid"
    using that raise_max_day_class [of "PInt m" "PInt d"]
    by (auto simp: Date_init_int)
  have c1: "(\<exists>a. ?init = Inr a) \<longleftrightarrow> ?valid"
    using ok bad by (cases ?valid) auto
  have c2: "\<forall>a. ?init = Inr a \<longrightarrow> a = \<lparr>day = PInt d, month = PInt m, year = PInt y\<rparr>"
    using Date_init_valid(1) by blast
  have c4: "?init = Inl (ValueError
                      ([CHR 0xD0, CHR 0xA3] @ '' '' @ digits (nat m)
                       @ ''-'' @ [CHR 0xD0, CHR 0xBC, CHR 0xD1, CHR 0x83] @ '' '' @ [CHR 0xD0, CHR 0xBC, CHR 0xD1,
       CHR 0x96, CHR 0xD1, CHR 0x81, CHR 0xD1, CHR 0x8F, CHR 0xD1, CHR 0x86, CHR 0xD1, CHR 0x96]
       @ '' '' @ [CHR 0xD0, CHR 0xBD, CHR 0xD0, CHR 0xB5] @ '' '' @ [CHR 0xD0, CHR 0xBC,
       CHR 0xD0, CHR 0xBE, CHR 0xD0, CHR 0xB6, CHR 0xD0, CHR 0xB5] @ '' '' @ [CHR 0xD0,
       CHR 0xB1, CHR 0xD1, CHR 0x83, CHR 0xD1, CHR 0x82, CHR 0xD0, CHR 0xB8] @ '' ''
                       @ digits (nat d)
                       @ '' '' @ [CHR 0xD0, CHR 0xB4, CHR 0xD0, CHR 0xBD, CHR 0xD1, CHR 0x96, CHR 0xD0, CHR 0xB2]
       @ ''.''))"
    if "1 \<le> y \<and> 1 \<le> m \<and> m \<le> 12 \<and> 1 \<le> d \<and> max_day_for m y < d
          \<and> length (digits (nat d)) \<le> 4300"
    using that
    by (simp add: Date_init_int msg_max_day_def str_int_small str_int_nonneg and_then_simps)
  have c5: "?init = Inl IntStrDigitsValueError"
    if "1 \<le> y \<and> 1 \<le> m \<and> m \<le> 12 \<and> 1 \<le> d \<and> max_day_for m y < d
          \<and> 4300 < length (digits (nat d))"
    using that by (intro Date_init_long_day) simp_all
  from c1 c2 bad c4 c5 show ?thesis by blast
qed

theorem C1_create_witness:
  "Date_init (IntObj (PInt 29)) (IntObj (PInt 2)) (IntObj (PInt 2024))
     = Inr \<lparr>day = PInt 29, month = PInt 2, year = PInt 2024\<rparr>
   \<and> Date_init (IntObj (PInt 29)) (IntObj (PInt 2)) (IntObj (PInt 2025))
     = Inl (ValueError
         ([CHR 0xD0, CHR 0xA3] @ '' '' @ ''2''
          @ ''-'' @ [CHR 0xD0, CHR 0xBC, CHR 0xD1, CHR 0x83] @ '' '' @ [CHR 0xD0, CHR 0xBC, CHR 0xD1,
       CHR 0x96, CHR 0xD1, CHR 0x81, CHR 0xD1, CHR 0x8F, CHR 0xD1, CHR 0x86, CHR 0xD1, CHR 0x96]
       @ '' '' @ [CHR 0xD0, CHR 0xBD, CHR 0xD0, CHR 0xB5] @ '' '' @ [CHR 0xD0, CHR 0xBC,
       CHR 0xD0, CHR 0xBE, CHR 0xD0, CHR 0xB6, CHR 0xD0, CHR 0xB5] @ '' '' @ [CHR 0xD0,
       CHR 0xB1, CHR 0xD1, CHR 0x83, CHR 0xD1, CHR 0x82, CHR 0xD0, CHR 0xB8] @ '' ''
          @ ''29''
          @ '' '' @ [CHR 0xD0, CHR 0xB4, CHR 0xD0, CHR 0xBD, CHR 0xD1, CHR 0x96, CHR 0xD0, CHR 0xB2]
       @ ''.''))
   \<and> class_of (ValueError msg_month) = ValueError_class"
proof -
  have l: "max_day_for 2 2024 = 29" "max_day_for 2 2025 = 28"
    by (simp_all add: max_day_for_def leap_rule_def)
  have s: "digits (nat 2) = ''2''" "digits (nat 29) = ''29''"
    by (simp_all add: digit_char_def)
  from C1_create [of 29 2 2024] C1_create [of 29 2 2025] show ?thesis
    unfolding l s by auto
qed

subsection \<open>C2: the type check\<close>




subsection \<open>C3: adding days\<close>

text \<open>
  Claim C3 says that \<^verbatim>\<open>a + n\<close> raises a \<open>ValueError\<close> when the date \<open>n\<close> days after \<open>a\<close>
  falls before year 1, and returns the date otherwise. The error of the calendar library
  is an \<open>OverflowError\<close>, which is not a \<open>ValueError\<close>: so for 1 January of year 1 and
  \<open>n = -1\<close>; and the library stops at year 9999, so 31 December 9999 plus one day raises
  too, although the day after does not fall before year 1.
\<close>

theorem C3_add_days_counterexample:
  "Date_init (IntObj (PInt 1)) (IntObj (PInt 1)) (IntObj (PInt 1))
     = Inr \<lparr>day = PInt 1, month = PInt 1, year = PInt 1\<rparr>
   \<and> days_later (- 1) (1, 1, 1) = (0, 12, 31)
   \<and> Date_add \<lparr>day = PInt 1, month = PInt 1, year = PInt 1\<rparr> (IntObj (PInt (- 1)))
       = Inl DatetimeOverflowError
   \<and> class_of DatetimeOverflowError = OverflowError_class
   \<and> Date_init (IntObj (PInt 31)) (IntObj (PInt 12)) (IntObj (PInt 9999))
     = Inr \<lparr>day = PInt 31, month = PInt 12, year = PInt 9999\<rparr>
   \<and> days_later 1 (9999, 12, 31) = (10000, 1, 1)
   \<and> Date_add \<lparr>day = PInt 31, month = PInt 12, year = PInt 9999\<rparr> (IntObj (PInt 1))
       = Inl DatetimeOverflowError"
proof -
  have "Date_init (IntObj (PInt 1)) (IntObj (PInt 1)) (IntObj (PInt 1))
     = Inr \<lparr>day = PInt 1, month = PInt 1, year = PInt 1\<rparr>"
    "Date_init (IntObj (PInt 31)) (IntObj (PInt 12)) (IntObj (PInt 9999))
     = Inr \<lparr>day = PInt 31, month = PInt 12, year = PInt 9999\<rparr>"
    by (simp_all add: Date_init_def)
  moreover have "days_later (- 1) (1, 1, 1) = (0, 12, 31)"
    "days_later 1 (9999, 12, 31) = (10000, 1, 1)"
    by (simp_all add: days_later_def max_day_for_def)
  moreover have "ymd2ord 1 1 1 = 1" "ymd2ord 9999 12 31 = 3652059"
    by (simp_all add: ymd2ord_def days_before_year_def days_before_month_def
        DAYS_BEFORE_MONTH_eq is_leap_def)
  then have "Date_add \<lparr>day = PInt 1, month = PInt 1, year = PInt 1\<rparr> (IntObj (PInt (- 1)))
       = Inl DatetimeOverflowError"
    "Date_add \<lparr>day = PInt 31, month = PInt 12, year = PInt 9999\<rparr> (IntObj (PInt 1))
       = Inl DatetimeOverflowError"
    by (simp_all add: Date_add_def as_date_def date_new_def fits_c_int_def MINYEAR_def MAXYEAR_def
        days_in_month_def DAYS_IN_MONTH_def and_then_def timedelta_new_def date_add_def
        MAXORDINAL_def)
  ultimately show ?thesis by simp
qed

text \<open>
  Claim C3, amended. For every valid date \<open>a\<close> of a year up to 9999 and every integer
  \<open>n\<close>: when the day \<open>n\<close> calendar days after \<open>a\<close> falls before year 1 or after year 9999,
  \<^verbatim>\<open>a + n\<close> raises an \<open>OverflowError\<close>; otherwise it returns a new date that is exactly that
  day and is itself valid (the constructor accepts its fields). The method is a function of
  its operands and returns no changed receiver.
\<close>

theorem C3_add_days:
  assumes "Date_init (IntObj (PInt d)) (IntObj (PInt m)) (IntObj (PInt y)) = Inr a"
    and "y \<le> 9999"
  shows "(fst (days_later n (y, m, d)) < 1 \<or> 9999 < fst (days_later n (y, m, d))
            \<longrightarrow> Date_add a (IntObj (PInt n)) = Inl DatetimeOverflowError)
    \<and> (1 \<le> fst (days_later n (y, m, d)) \<and> fst (days_later n (y, m, d)) \<le> 9999
            \<longrightarrow> Date_add a (IntObj (PInt n)) = Inr (Value (of_ymd (days_later n (y, m, d))))
              \<and> Date_init (IntObj (day (of_ymd (days_later n (y, m, d)))))
                    (IntObj (month (of_ymd (days_later n (y, m, d)))))
                    (IntObj (year (of_ymd (days_later n (y, m, d)))))
                  = Inr (of_ymd (days_later n (y, m, d))))
    \<and> class_of DatetimeOverflowError = OverflowError_class"
proof -
  note v = Date_init_valid(2,3) [OF assms(1)]
  have "calendar_day (days_later n (y, m, d))"
    by (rule toordinal_days_later(1) [OF v(2)])
  from Date_init_of_ymd [OF this] Date_add_int [OF assms, of n]
  show ?thesis by auto
qed

theorem C3_add_days_witness:
  "Date_add \<lparr>day = PInt 1, month = PInt 1, year = PInt 2025\<rparr> (IntObj (PInt 10))
     = Inr (Value \<lparr>day = PInt 11, month = PInt 1, year = PInt 2025\<rparr>)
   \<and> Date_add \<lparr>day = PInt 1, month = PInt 3, year = PInt 2024\<rparr> (IntObj (PInt (- 1)))
     = Inr (Value \<lparr>day = PInt 29, month = PInt 2, year = PInt 2024\<rparr>)
   \<and> Date_add \<lparr>day = PInt 2, month = PInt 1, year = PInt 1\<rparr> (IntObj (PInt (- 2)))
     = Inl DatetimeOverflowError"
proof -
  have h: "Date_init (IntObj (PInt 1)) (IntObj (PInt 1)) (IntObj (PInt 2025))
         = Inr \<lparr>day = PInt 1, month = PInt 1, year = PInt 2025\<rparr>"
      "Date_init (IntObj (PInt 1)) (IntObj (PInt 3)) (IntObj (PInt 2024))
         = Inr \<lparr>day = PInt 1, month = PInt 3, year = PInt 2024\<rparr>"
      "Date_init (IntObj (PInt 2)) (IntObj (PInt 1)) (IntObj (PInt 1))
         = Inr \<lparr>day = PInt 2, month = PInt 1, year = PInt 1\<rparr>"
    by (simp_all add: Date_init_def)
  have l: "days_later 10 (2025, 1, 1) = (2025, 1, 11)"
      "days_later (- 1) (2024, 3, 1) = (2024, 2, 29)"
      "days_later (- 2) (1, 1, 2) = (0, 12, 31)"
    by (simp_all add: days_later_def max_day_for_def leap_rule_def eval_nat_numeral)
  show ?thesis
    using C3_add_days [OF h(1), of 10] C3_add_days [OF h(2), of "- 1"]
      C3_add_days [OF h(3), of "- 2"]
    unfolding l by simp
qed

subsection \<open>C4: the leap-year rule\<close>

text \<open>
  Claim C4. For every integer year, the static helper \<^verbatim>\<open>_is_leap_year\<close> and the instance
  method \<^verbatim>\<open>is_leap_year\<close> return true iff the year is divisible by 4 and (not divisible by
  100, or divisible by 400); it is true for 2024 and 2000 and false for 2025 and 1900.
\<close>

theorem C4_is_leap_year:
  "private_is_leap_year y = (4 dvd y \<and> (\<not> 100 dvd y \<or> 400 dvd y))
   \<and> is_leap_year \<lparr>day = d, month = m, year = PInt y\<rparr> = (4 dvd y \<and> (\<not> 100 dvd y \<or> 400 dvd y))
   \<and> private_is_leap_year 2024 \<and> private_is_leap_year 2000
   \<and> \<not> private_is_leap_year 2025 \<and> \<not> private_is_leap_year 1900"
  by (simp add: is_leap_year_def private_is_leap_year_def dvd_eq_mod_eq_0)

theorem C4_is_leap_year_witness:
  "is_leap_year \<lparr>day = PInt 29, month = PInt 2, year = PInt 2024\<rparr>
   \<and> \<not> is_leap_year \<lparr>day = PInt 1, month = PInt 3, year = PInt 1900\<rparr>"
  using C4_is_leap_year [of 2024 "PInt 29" "PInt 2"] C4_is_leap_year [of 1900 "PInt 1" "PInt 3"]
  by simp

subsection \<open>C5: the difference of two dates\<close>

text \<open>
  Claim C5. For all valid dates \<open>a\<close> and \<open>b\<close> of years up to 9999, \<^verbatim>\<open>a - b\<close> returns the signed
  number \<open>k\<close> of calendar days from \<open>b\<close> to \<open>a\<close> (\<open>a\<close> is the day \<open>k\<close> days after \<open>b\<close>, and
  no other number of days leads from \<open>b\<close> to \<open>a\<close>), \<^verbatim>\<open>b - a\<close> returns \<open>- k\<close>, and
  \<^verbatim>\<open>b + (a - b)\<close> returns \<open>a\<close>.
\<close>

theorem C5_difference:
  assumes "Date_init (IntObj (PInt da)) (IntObj (PInt ma)) (IntObj (PInt ya)) = Inr a"
    and "ya \<le> 9999"
    and "Date_init (IntObj (PInt db)) (IntObj (PInt mb)) (IntObj (PInt yb)) = Inr b"
    and "yb \<le> 9999"
  shows "\<exists>k. Date_sub a (DateObj b) = Inr (Value k)
           \<and> Date_sub b (DateObj a) = Inr (Value (- k))
           \<and> days_later k (yb, mb, db) = (ya, ma, da)
           \<and> (\<forall>j. days_later j (yb, mb, db) = (ya, ma, da) \<longrightarrow> j = k)
           \<and> Date_add b (IntObj (PInt k)) = Inr (Value a)
           \<and> Date_eq (of_ymd (days_later k (yb, mb, db))) (DateObj a) = Value True"
proof -
  note va = Date_init_valid [OF assms(1)] and vb = Date_init_valid [OF assms(3)]
  define k where "k = toordinal (ya, ma, da) - toordinal (yb, mb, db)"
  have s1: "Date_sub a (DateObj b) = Inr (Value k)"
    unfolding k_def by (rule Date_sub_int [OF assms])
  have "- k = toordinal (yb, mb, db) - toordinal (ya, ma, da)"
    by (simp add: k_def)
  then have s2: "Date_sub b (DateObj a) = Inr (Value (- k))"
    using Date_sub_int [OF assms(3,4,1,2)] by (simp only:)
  have o: "toordinal (days_later j (yb, mb, db)) = toordinal (yb, mb, db) + j" for j
    by (rule toordinal_days_later(2) [OF vb(3)])
  have "toordinal (days_later k (yb, mb, db)) = toordinal (ya, ma, da)"
    unfolding o by (simp add: k_def)
  with toordinal_days_later(1) [OF vb(3), of k] va(3)
  have l: "days_later k (yb, mb, db) = (ya, ma, da)"
    by (rule toordinal_inj)
  have u: "\<forall>j. days_later j (yb, mb, db) = (ya, ma, da) \<longrightarrow> j = k"
  proof (intro allI impI)
    fix j assume "days_later j (yb, mb, db) = (ya, ma, da)"
    with o [of j] have "toordinal (ya, ma, da) = toordinal (yb, mb, db) + j" by (simp only:)
    then show "j = k" by (simp add: k_def)
  qed
  have ad: "Date_add b (IntObj (PInt k)) = Inr (Value a)"
    using Date_add_int [OF assms(3,4), of k] va(2) assms(2) unfolding l
    by (simp add: va(1))
  have e: "Date_eq (of_ymd (days_later k (yb, mb, db))) (DateObj a) = Value True"
    unfolding l by (simp add: Date_eq_def va(1))
  from s1 s2 l u ad e show ?thesis by blast
qed

theorem C5_difference_witness:
  "Date_sub \<lparr>day = PInt 16, month = PInt 4, year = PInt 2025\<rparr>
      (DateObj \<lparr>day = PInt 1, month = PInt 1, year = PInt 2025\<rparr>) = Inr (Value 105)
   \<and> Date_sub \<lparr>day = PInt 1, month = PInt 1, year = PInt 2025\<rparr>
      (DateObj \<lparr>day = PInt 16, month = PInt 4, year = PInt 2025\<rparr>) = Inr (Value (- 105))
   \<and> Date_add \<lparr>day = PInt 1, month = PInt 1, year = PInt 2025\<rparr> (IntObj (PInt 105))
      = Inr (Value \<lparr>day = PInt 16, month = PInt 4, year = PInt 2025\<rparr>)"
proof -
  have h: "Date_init (IntObj (PInt 16)) (IntObj (PInt 4)) (IntObj (PInt 2025))
         = Inr \<lparr>day = PInt 16, month = PInt 4, year = PInt 2025\<rparr>"
      "Date_init (IntObj (PInt 1)) (IntObj (PInt 1)) (IntObj (PInt 2025))
         = Inr \<lparr>day = PInt 1, month = PInt 1, year = PInt 2025\<rparr>"
    by (simp_all add: Date_init_def)
  have y: "(2025::int) \<le> 9999" by simp
  have "ymd2ord 2025 4 16 = 739357" "ymd2ord 2025 1 1 = 739252"
    by (simp_all add: ymd2ord_def days_before_year_def days_before_month_def
        DAYS_BEFORE_MONTH_eq is_leap_def)
  then have s: "Date_sub \<lparr>day = PInt 16, month = PInt 4, year = PInt 2025\<rparr>
      (DateObj \<lparr>day = PInt 1, month = PInt 1, year = PInt 2025\<rparr>) = Inr (Value 105)"
    by (simp add: Date_sub_def as_date_def date_new_def fits_c_int_def MINYEAR_def MAXYEAR_def
        days_in_month_def DAYS_IN_MONTH_def and_then_def timedelta_new_def date_sub_def)
  from C5_difference [OF h(1) y h(2) y] show ?thesis
    unfolding s by auto
qed

subsection \<open>C6: comparisons\<close>

text \<open>
  Claim C6. For all dates \<open>a\<close> and \<open>b\<close>, \<^verbatim>\<open>a < b\<close> and \<^verbatim>\<open>a > b\<close> compare the triples
  (year, month, day) lexicographically, year first, then month, then day, and \<^verbatim>\<open>a == b\<close>
  holds iff the three fields are equal; \<^verbatim>\<open>Date(29,2,2024) > Date(16,4,2025)\<close> is false.
\<close>

theorem C6_comparisons:
  "Date_lt a (DateObj b) =
     Value (int_of (year a) < int_of (year b)
       \<or> int_of (year a) = int_of (year b)
           \<and> (int_of (month a) < int_of (month b)
             \<or> int_of (month a) = int_of (month b) \<and> int_of (day a) < int_of (day b)))
   \<and> Date_gt a (DateObj b) =
     Value (int_of (year a) > int_of (year b)
       \<or> int_of (year a) = int_of (year b)
           \<and> (int_of (month a) > int_of (month b)
             \<or> int_of (month a) = int_of (month b) \<and> int_of (day a) > int_of (day b)))
   \<and> Date_eq a (DateObj b) =
     Value (int_of (day a) = int_of (day b) \<and> int_of (month a) = int_of (month b)
       \<and> int_of (year a) = int_of (year b))
   \<and> Date_gt \<lparr>day = PInt 29, month = PInt 2, year = PInt 2024\<rparr>
        (DateObj \<lparr>day = PInt 16, month = PInt 4, year = PInt 2025\<rparr>) = Value False"
  unfolding Date_lt_def Date_gt_def Date_eq_def by (simp add: tuple_lt3 tuple_gt3)

theorem C6_comparisons_witness:
  "Date_lt \<lparr>day = PInt 1, month = PInt 1, year = PInt 2025\<rparr>
      (DateObj \<lparr>day = PInt 16, month = PInt 4, year = PInt 2025\<rparr>) = Value True
   \<and> Date_gt \<lparr>day = PInt 31, month = PInt 12, year = PInt 2024\<rparr>
      (DateObj \<lparr>day = PInt 1, month = PInt 1, year = PInt 2025\<rparr>) = Value False
   \<and> Date_eq \<lparr>day = PInt 16, month = PInt 4, year = PInt 2025\<rparr>
      (DateObj \<lparr>day = PInt 1, month = PInt 1, year = PInt 2025\<rparr>) = Value False"
  using C6_comparisons [of "\<lparr>day = PInt 1, month = PInt 1, year = PInt 2025\<rparr>"
      "\<lparr>day = PInt 16, month = PInt 4, year = PInt 2025\<rparr>"]
    C6_comparisons [of "\<lparr>day = PInt 31, month = PInt 12, year = PInt 2024\<rparr>"
      "\<lparr>day = PInt 1, month = PInt 1, year = PInt 2025\<rparr>"]
    C6_comparisons [of "\<lparr>day = PInt 16, month = PInt 4, year = PInt 2025\<rparr>"
      "\<lparr>day = PInt 1, month = PInt 1, year = PInt 2025\<rparr>"]
  by simp

subsection \<open>C7: the day of the week\<close>

text \<open>
  Claim C7. For every valid date of a year up to 9999, \<^verbatim>\<open>day_of_week\<close> returns the entry of
  the table of seven names at the weekday index of the date, a number from 0 to 6. The
  index is the weekday of the proleptic Gregorian calendar counted from Monday: it moves
  on by one, modulo 7, with each calendar day, and it is 2, Wednesday, on 16 April 2025,
  for which the method returns "Sereda". The table is "Ponedilok", "Vivtorok", "Sereda",
  "Chetver", "P'iatnytsia", "Subota", "Nedilia", in Cyrillic letters, Monday first.
\<close>

theorem C7_day_of_week:
  assumes "Date_init (IntObj (PInt d)) (IntObj (PInt m)) (IntObj (PInt y)) = Inr a"
    and "y \<le> 9999"
  shows "day_of_week a = Inr (days ! nat (weekday (y, m, d)))
    \<and> 0 \<le> weekday (y, m, d) \<and> weekday (y, m, d) < 7 \<and> length days = 7
    \<and> weekday (next_day (y, m, d)) = (weekday (y, m, d) + 1) mod 7
    \<and> (\<forall>n. days_later n (2025, 4, 16) = (y, m, d) \<longrightarrow> weekday (y, m, d) = (2 + n) mod 7)
    \<and> days =
        [[CHR 0xD0, CHR 0x9F, CHR 0xD0, CHR 0xBE, CHR 0xD0, CHR 0xBD, CHR 0xD0, CHR 0xB5,
          CHR 0xD0, CHR 0xB4, CHR 0xD1, CHR 0x96, CHR 0xD0, CHR 0xBB, CHR 0xD0, CHR 0xBE,
          CHR 0xD0, CHR 0xBA],
         [CHR 0xD0, CHR 0x92, CHR 0xD1, CHR 0x96, CHR 0xD0, CHR 0xB2, CHR 0xD1, CHR 0x82,
          CHR 0xD0, CHR 0xBE, CHR 0xD1, CHR 0x80, CHR 0xD0, CHR 0xBE, CHR 0xD0, CHR 0xBA],
         [CHR 0xD0, CHR 0xA1, CHR 0xD0, CHR 0xB5, CHR 0xD1, CHR 0x80, CHR 0xD0, CHR 0xB5,
          CHR 0xD0, CHR 0xB4, CHR 0xD0, CHR 0xB0],
         [CHR 0xD0, CHR 0xA7, CHR 0xD0, CHR 0xB5, CHR 0xD1, CHR 0x82, CHR 0xD0, CHR 0xB2,
          CHR 0xD0, CHR 0xB5, CHR 0xD1, CHR 0x80],
         [CHR 0xD0, CHR 0x9F, CHR 0xE2, CHR 0x80, CHR 0x99, CHR 0xD1, CHR 0x8F, CHR 0xD1,
          CHR 0x82, CHR 0xD0, CHR 0xBD, CHR 0xD0, CHR 0xB8, CHR 0xD1, CHR 0x86, CHR 0xD1,
          CHR 0x8F],
         [CHR 0xD0, CHR 0xA1, CHR 0xD1, CHR 0x83, CHR 0xD0, CHR 0xB1, CHR 0xD0, CHR 0xBE,
          CHR 0xD1, CHR 0x82, CHR 0xD0, CHR 0xB0],
         [CHR 0xD0, CHR 0x9D, CHR 0xD0, CHR 0xB5, CHR 0xD0, CHR 0xB4, CHR 0xD1, CHR 0x96,
          CHR 0xD0, CHR 0xBB, CHR 0xD1, CHR 0x8F]]
    \<and> day_of_week \<lparr>day = PInt 16, month = PInt 4, year = PInt 2025\<rparr>
        = Inr [CHR 0xD0, CHR 0xA1, CHR 0xD0, CHR 0xB5, CHR 0xD1, CHR 0x80, CHR 0xD0, CHR 0xB5,
       CHR 0xD0, CHR 0xB4, CHR 0xD0, CHR 0xB0]"
proof -
  note v = Date_init_valid(2,3) [OF assms(1)]
  have i: "py_index days (weekday x) = Inr (days ! nat (weekday x))" for x
    using weekday_range [of x] by (simp add: py_index_def days_length)
  have w: "day_of_week a = Inr (days ! nat (weekday (y, m, d)))"
    by (simp add: day_of_week_def as_date_ok [OF assms] and_then_def i)
  have c: "calendar_day (2025, 4, 16)" by (simp add: max_day_for_def)
  have n: "\<forall>n. days_later n (2025, 4, 16) = (y, m, d) \<longrightarrow> weekday (y, m, d) = (2 + n) mod 7"
  proof (intro allI impI)
    fix n assume "days_later n (2025, 4, 16) = (y, m, d)"
    with weekday_days_later [OF c, of n] show "weekday (y, m, d) = (2 + n) mod 7"
      by (simp only: weekday_2025_04_16)
  qed
  have s: "days ! 2 = [CHR 0xD0, CHR 0xA1, CHR 0xD0, CHR 0xB5, CHR 0xD1, CHR 0x80, CHR 0xD0, CHR 0xB5,
       CHR 0xD0, CHR 0xB4, CHR 0xD0, CHR 0xB0]"
    by (simp add: days_def)
  have tab: "days =
        [[CHR 0xD0, CHR 0x9F, CHR 0xD0, CHR 0xBE, CHR 0xD0, CHR 0xBD, CHR 0xD0, CHR 0xB5,
          CHR 0xD0, CHR 0xB4, CHR 0xD1, CHR 0x96, CHR 0xD0, CHR 0xBB, CHR 0xD0, CHR 0xBE,
          CHR 0xD0, CHR 0xBA],
         [CHR 0xD0, CHR 0x92, CHR 0xD1, CHR 0x96, CHR 0xD0, CHR 0xB2, CHR 0xD1, CHR 0x82,
          CHR 0xD0, CHR 0xBE, CHR 0xD1, CHR 0x80, CHR 0xD0, CHR 0xBE, CHR 0xD0, CHR 0xBA],
         [CHR 0xD0, CHR 0xA1, CHR 0xD0, CHR 0xB5, CHR 0xD1, CHR 0x80, CHR 0xD0, CHR 0xB5,
          CHR 0xD0, CHR 0xB4, CHR 0xD0, CHR 0xB0],
         [CHR 0xD0, CHR 0xA7, CHR 0xD0, CHR 0xB5, CHR 0xD1, CHR 0x82, CHR 0xD0, CHR 0xB2,
          CHR 0xD0, CHR 0xB5, CHR 0xD1, CHR 0x80],
         [CHR 0xD0, CHR 0x9F, CHR 0xE2, CHR 0x80, CHR 0x99, CHR 0xD1, CHR 0x8F, CHR 0xD1,
          CHR 0x82, CHR 0xD0, CHR 0xBD, CHR 0xD0, CHR 0xB8, CHR 0xD1, CHR 0x86, CHR 0xD1,
          CHR 0x8F],
         [CHR 0xD0, CHR 0xA1, CHR 0xD1, CHR 0x83, CHR 0xD0, CHR 0xB1, CHR 0xD0, CHR 0xBE,
          CHR 0xD1, CHR 0x82, CHR 0xD0, CHR 0xB0],
         [CHR 0xD0, CHR 0x9D, CHR 0xD0, CHR 0xB5, CHR 0xD0, CHR 0xB4, CHR 0xD1, CHR 0x96,
          CHR 0xD0, CHR 0xBB, CHR 0xD1, CHR 0x8F]]"
    by (simp add: days_def)
  have "as_date \<lparr>day = PInt 16, month = PInt 4, year = PInt 2025\<rparr> = Inr (2025, 4, 16)"
    by (simp add: as_date_def date_new_def fits_c_int_def MINYEAR_def MAXYEAR_def days_in_month_def
        DAYS_IN_MONTH_def)
  then have e: "day_of_week \<lparr>day = PInt 16, month = PInt 4, year = PInt 2025\<rparr>
        = Inr [CHR 0xD0, CHR 0xA1, CHR 0xD0, CHR 0xB5, CHR 0xD1, CHR 0x80, CHR 0xD0, CHR 0xB5,
       CHR 0xD0, CHR 0xB4, CHR 0xD0, CHR 0xB0]"
    by (simp add: day_of_week_def and_then_def i weekday_2025_04_16 s)
  from w weekday_range [of "(y, m, d)"] days_length weekday_next_day [OF v(2)] n tab e
  show ?thesis by blast
qed

theorem C7_day_of_week_witness:
  "day_of_week \<lparr>day = PInt 18, month = PInt 4, year = PInt 2025\<rparr> = Inr (days ! 4)
   \<and> weekday (2025, 4, 18) = 4"
proof -
  have h: "Date_init (IntObj (PInt 18)) (IntObj (PInt 4)) (IntObj (PInt 2025))
         = Inr \<lparr>day = PInt 18, month = PInt 4, year = PInt 2025\<rparr>"
    by (simp add: Date_init_def)
  have y: "(2025::int) \<le> 9999" by simp
  have l: "days_later 2 (2025, 4, 16) = (2025, 4, 18)"
    by (simp add: days_later_def max_day_for_def eval_nat_numeral)
  from C7_day_of_week [OF h y] l show ?thesis
    by simp
qed

subsection \<open>C8: the string of a date\<close>

lemma Date_init_jan1:
  "1 \<le> y \<Longrightarrow> Date_init (IntObj (PInt 1)) (IntObj (PInt 1)) (IntObj (PInt y))
     = Inr \<lparr>day = PInt 1, month = PInt 1, year = PInt y\<rparr>"
  by (simp add: Date_init_int max_day_for_def)

lemma Date_str_int:
  assumes "Date_init (IntObj (PInt d)) (IntObj (PInt m)) (IntObj (PInt y)) = Inr a"
  shows "Date_str a =
     (if 4300 < length (digits (nat y)) then Inl IntStrDigitsValueError
      else Inr ([digit_char (nat d div 10), digit_char (nat d mod 10)] @ ''.''
           @ [digit_char (nat m div 10), digit_char (nat m mod 10)] @ ''.''
           @ digits (nat y)))"
proof -
  from Date_init_valid [OF assms]
  have a: "a = \<lparr>day = PInt d, month = PInt m, year = PInt y\<rparr>"
    and v: "1 \<le> y" "1 \<le> m" "m \<le> 12" "1 \<le> d" "d \<le> max_day_for m y" by simp_all
  have d: "0 \<le> d" "d < 100" using v max_day_for_le [of m y] by simp_all
  have m: "0 \<le> m" "m < 100" using v by simp_all
  show ?thesis
    using v
    by (simp add: a Date_str_def format_02d_two [OF d] format_02d_two [OF m]
        str_int_nonneg and_then_simps)
qed

text \<open>
  Claim C8 says that \<^verbatim>\<open>str\<close> renders every valid date. The constructor accepts every year
  from 1 on, and the interpreter refuses to print an integer of more than 4300 digits:
  1 January of the year \<open>10 ^ 4300\<close> is a valid date whose \<^verbatim>\<open>__str__\<close> raises a \<open>ValueError\<close>.
\<close>

theorem C8_to_string_counterexample:
  "Date_init (IntObj (PInt 1)) (IntObj (PInt 1)) (IntObj (PInt (10 ^ 4300)))
     = Inr \<lparr>day = PInt 1, month = PInt 1, year = PInt (10 ^ 4300)\<rparr>
   \<and> Date_str \<lparr>day = PInt 1, month = PInt 1, year = PInt (10 ^ 4300)\<rparr>
     = Inl IntStrDigitsValueError"
proof -
  note h = Date_init_jan1 [OF ten_power_ge_1, of 4300]
  have "Date_str \<lparr>day = PInt 1, month = PInt 1, year = PInt (10 ^ 4300)\<rparr>
     = Inl IntStrDigitsValueError"
    by (rule trans [OF Date_str_int [OF h] if_P [OF digits_ten_power]])
  with h show ?thesis by (rule conjI)
qed

text \<open>
  Claim C8, amended. For every valid date whose year has at most 4300 decimal digits,
  \<^verbatim>\<open>str\<close> gives "DD.MM.YYYY": two digits whose value is the day, a dot, two digits whose
  value is the month, a dot, and the decimal numeral of the year with no leading zero.
  For a longer year it raises the interpreter's \<open>ValueError\<close>.
\<close>

theorem C8_to_string:
  assumes "Date_init (IntObj (PInt d)) (IntObj (PInt m)) (IntObj (PInt y)) = Inr a"
  shows "(length (digits (nat y)) \<le> 4300 \<longrightarrow>
           Date_str a =
             Inr ([digit_char (nat d div 10), digit_char (nat d mod 10)] @ ''.''
           @ [digit_char (nat m div 10), digit_char (nat m mod 10)] @ ''.''
           @ digits (nat y)))
    \<and> (4300 < length (digits (nat y)) \<longrightarrow> Date_str a = Inl IntStrDigitsValueError)
    \<and> decimal_value [digit_char (nat d div 10), digit_char (nat d mod 10)] = nat d
    \<and> decimal_value [digit_char (nat m div 10), digit_char (nat m mod 10)] = nat m
    \<and> decimal_value (digits (nat y)) = nat y
    \<and> list_all is_digit [digit_char (nat d div 10), digit_char (nat d mod 10)]
    \<and> list_all is_digit [digit_char (nat m div 10), digit_char (nat m mod 10)]
    \<and> list_all is_digit (digits (nat y))
    \<and> hd (digits (nat y)) \<noteq> CHR ''0''"
proof -
  from Date_init_valid [OF assms]
  have v: "1 \<le> y" "1 \<le> m" "m \<le> 12" "1 \<le> d" "d \<le> max_day_for m y" by simp_all
  have d: "0 \<le> d" "d < 100" using v max_day_for_le [of m y] by simp_all
  have m: "0 \<le> m" "m < 100" using v by simp_all
  have dd: "nat d div 10 < 10" "nat d mod 10 < 10" "nat m div 10 < 10" "nat m mod 10 < 10"
    using d m by simp_all
  have vd: "decimal_value [digit_char (nat d div 10), digit_char (nat d mod 10)] = nat d"
    using digit_char_props(1) [OF dd(1)] digit_char_props(1) [OF dd(2)]
    by (simp add: decimal_value_def)
  have vm: "decimal_value [digit_char (nat m div 10), digit_char (nat m mod 10)] = nat m"
    using digit_char_props(1) [OF dd(3)] digit_char_props(1) [OF dd(4)]
    by (simp add: decimal_value_def)
  have "0 < nat y" using v by simp
  with digits_props [of "nat y"] vd vm dd show ?thesis
    unfolding Date_str_int [OF assms]
    by (simp add: digit_char_props(2))
qed

theorem C8_to_string_witness:
  "Date_str \<lparr>day = PInt 16, month = PInt 4, year = PInt 2025\<rparr> = Inr ''16.04.2025''
   \<and> Date_str \<lparr>day = PInt 1, month = PInt 12, year = PInt 987\<rparr> = Inr ''01.12.987''"
proof -
  have h: "Date_init (IntObj (PInt 16)) (IntObj (PInt 4)) (IntObj (PInt 2025))
             = Inr \<lparr>day = PInt 16, month = PInt 4, year = PInt 2025\<rparr>"
    "Date_init (IntObj (PInt 1)) (IntObj (PInt 12)) (IntObj (PInt 987))
             = Inr \<lparr>day = PInt 1, month = PInt 12, year = PInt 987\<rparr>"
    by (simp_all add: Date_init_def)
  show ?thesis
    using C8_to_string [OF h(1)] C8_to_string [OF h(2)]
    by (simp add: digit_char_def)
qed

subsection \<open>C9: the month name\<close>

lemma month_name_int:
  assumes "Date_init (IntObj (PInt d)) (IntObj (PInt m)) (IntObj (PInt y)) = Inr a"
  shows "month_name a =
     (if 4300 < length (digits (nat y)) then Inl IntStrDigitsValueError
      else Inr (digits (nat d) @ '' '' @ months ! nat (m - 1) @ '' '' @ digits (nat y)
                @ '' '' @ [CHR 0xD1, CHR 0x80, CHR 0xD1, CHR 0x96, CHR 0xD0, CHR 0xBA]))"
proof -
  from Date_init_valid [OF assms]
  have a: "a = \<lparr>day = PInt d, month = PInt m, year = PInt y\<rparr>"
    and v: "1 \<le> y" "1 \<le> m" "m \<le> 12" "1 \<le> d" "d \<le> max_day_for m y" by simp_all
  have d: "0 \<le> d" "d < 100" using v max_day_for_le [of m y] by simp_all
  have i: "py_index months (m - 1) = Inr (months ! nat (m - 1))"
    using v by (simp add: py_index_def months_length)
  show ?thesis
    using v
    by (simp add: a month_name_def i str_int_small [OF d] str_int_nonneg and_then_simps)
qed

text \<open>
  Claim C9 says that \<^verbatim>\<open>month_name\<close> returns the string for every valid date. As for
  \<^verbatim>\<open>__str__\<close>, the year is printed by the interpreter, which refuses more than 4300 digits:
  for the valid date 1 January of the year \<open>10 ^ 4300\<close> the method raises a \<open>ValueError\<close>.
\<close>

theorem C9_month_name_counterexample:
  "Date_init (IntObj (PInt 1)) (IntObj (PInt 1)) (IntObj (PInt (10 ^ 4300)))
     = Inr \<lparr>day = PInt 1, month = PInt 1, year = PInt (10 ^ 4300)\<rparr>
   \<and> month_name \<lparr>day = PInt 1, month = PInt 1, year = PInt (10 ^ 4300)\<rparr>
     = Inl IntStrDigitsValueError"
proof -
  note h = Date_init_jan1 [OF ten_power_ge_1, of 4300]
  have "month_name \<lparr>day = PInt 1, month = PInt 1, year = PInt (10 ^ 4300)\<rparr>
     = Inl IntStrDigitsValueError"
    by (rule trans [OF month_name_int [OF h] if_P [OF digits_ten_power]])
  with h show ?thesis by (rule conjI)
qed

text \<open>
  Claim C9, amended. For every valid date whose year has at most 4300 decimal digits,
  \<^verbatim>\<open>month_name\<close> returns the day in decimal, a space, the entry \<open>month - 1\<close> of the table of
  twelve genitive month names, a space, the year in decimal and " rik"; for a longer year
  it raises the interpreter's \<open>ValueError\<close>. The table is "sichnia", "liutoho", "bereznia",
  "kvitnia", "travnia", "chervnia", "lypnia", "serpnia", "veresnia", "zhovtnia",
  "lystopada", "hrudnia", in Cyrillic letters; for 16 April 2025 the result is
  "16 kvitnia 2025 rik".
\<close>

theorem C9_month_name:
  assumes "Date_init (IntObj (PInt d)) (IntObj (PInt m)) (IntObj (PInt y)) = Inr a"
  shows "(length (digits (nat y)) \<le> 4300 \<longrightarrow>
           month_name a =
             Inr (digits (nat d) @ '' '' @ months ! nat (m - 1) @ '' '' @ digits (nat y)
                @ '' '' @ [CHR 0xD1, CHR 0x80, CHR 0xD1, CHR 0x96, CHR 0xD0, CHR 0xBA]))
    \<and> (4300 < length (digits (nat y)) \<longrightarrow> month_name a = Inl IntStrDigitsValueError)
    \<and> nat (m - 1) < length months
    \<and> months =
        [[CHR 0xD1, CHR 0x81, CHR 0xD1, CHR 0x96, CHR 0xD1, CHR 0x87, CHR 0xD0, CHR 0xBD,
          CHR 0xD1, CHR 0x8F],
         [CHR 0xD0, CHR 0xBB, CHR 0xD1, CHR 0x8E, CHR 0xD1, CHR 0x82, CHR 0xD0, CHR 0xBE,
          CHR 0xD0, CHR 0xB3, CHR 0xD0, CHR 0xBE],
         [CHR 0xD0, CHR 0xB1, CHR 0xD0, CHR 0xB5, CHR 0xD1, CHR 0x80, CHR 0xD0, CHR 0xB5,
          CHR 0xD0, CHR 0xB7, CHR 0xD0, CHR 0xBD, CHR 0xD1, CHR 0x8F],
         [CHR 0xD0, CHR 0xBA, CHR 0xD0, CHR 0xB2, CHR 0xD1, CHR 0x96, CHR 0xD1, CHR 0x82,
          CHR 0xD0, CHR 0xBD, CHR 0xD1, CHR 0x8F],
         [CHR 0xD1, CHR 0x82, CHR 0xD1, CHR 0x80, CHR 0xD0, CHR 0xB0, CHR 0xD0, CHR 0xB2,
          CHR 0xD0, CHR 0xBD, CHR 0xD1, CHR 0x8F],
         [CHR 0xD1, CHR 0x87, CHR 0xD0, CHR 0xB5, CHR 0xD1, CHR 0x80, CHR 0xD0, CHR 0xB2,
          CHR 0xD0, CHR 0xBD, CHR 0xD1, CHR 0x8F],
         [CHR 0xD0, CHR 0xBB, CHR 0xD0, CHR 0xB8, CHR 0xD0, CHR 0xBF, CHR 0xD0, CHR 0xBD,
          CHR 0xD1, CHR 0x8F],
         [CHR 0xD1, CHR 0x81, CHR 0xD0, CHR 0xB5, CHR 0xD1, CHR 0x80, CHR 0xD0, CHR 0xBF,
          CHR 0xD0, CHR 0xBD, CHR 0xD1, CHR 0x8F],
         [CHR 0xD0, CHR 0xB2, CHR 0xD0, CHR 0xB5, CHR 0xD1, CHR 0x80, CHR 0xD0, CHR 0xB5,
          CHR 0xD1, CHR 0x81, CHR 0xD0, CHR 0xBD, CHR 0xD1, CHR 0x8F],
         [CHR 0xD0, CHR 0xB6, CHR 0xD0, CHR 0xBE, CHR 0xD0, CHR 0xB2, CHR 0xD1, CHR 0x82,
          CHR 0xD0, CHR 0xBD, CHR 0xD1, CHR 0x8F],
         [CHR 0xD0, CHR 0xBB, CHR 0xD0, CHR 0xB8, CHR 0xD1, CHR 0x81, CHR 0xD1, CHR 0x82,
          CHR 0xD0, CHR 0xBE, CHR 0xD0, CHR 0xBF, CHR 0xD0, CHR 0xB0, CHR 0xD0, CHR 0xB4,
          CHR 0xD0, CHR 0xB0],
         [CHR 0xD0, CHR 0xB3, CHR 0xD1, CHR 0x80, CHR 0xD1, CHR 0x83, CHR 0xD0, CHR 0xB4,
          CHR 0xD0, CHR 0xBD, CHR 0xD1, CHR 0x8F]]
    \<and> month_name \<lparr>day = PInt 16, month = PInt 4, year = PInt 2025\<rparr>
        = Inr (''16 '' @ [CHR 0xD0, CHR 0xBA, CHR 0xD0, CHR 0xB2, CHR 0xD1, CHR 0x96, CHR 0xD1, CHR 0x82,
       CHR 0xD0, CHR 0xBD, CHR 0xD1, CHR 0x8F]
               @ '' 2025'' @ '' '' @ [CHR 0xD1, CHR 0x80, CHR 0xD1, CHR 0x96, CHR 0xD0, CHR 0xBA])"
proof -
  from Date_init_valid [OF assms]
  have v: "1 \<le> y" "1 \<le> m" "m \<le> 12" "1 \<le> d" by simp_all
  have tab: "months =
        [[CHR 0xD1, CHR 0x81, CHR 0xD1, CHR 0x96, CHR 0xD1, CHR 0x87, CHR 0xD0, CHR 0xBD,
          CHR 0xD1, CHR 0x8F],
         [CHR 0xD0, CHR 0xBB, CHR 0xD1, CHR 0x8E, CHR 0xD1, CHR 0x82, CHR 0xD0, CHR 0xBE,
          CHR 0xD0, CHR 0xB3, CHR 0xD0, CHR 0xBE],
         [CHR 0xD0, CHR 0xB1, CHR 0xD0, CHR 0xB5, CHR 0xD1, CHR 0x80, CHR 0xD0, CHR 0xB5,
          CHR 0xD0, CHR 0xB7, CHR 0xD0, CHR 0xBD, CHR 0xD1, CHR 0x8F],
         [CHR 0xD0, CHR 0xBA, CHR 0xD0, CHR 0xB2, CHR 0xD1, CHR 0x96, CHR 0xD1, CHR 0x82,
          CHR 0xD0, CHR 0xBD, CHR 0xD1, CHR 0x8F],
         [CHR 0xD1, CHR 0x82, CHR 0xD1, CHR 0x80, CHR 0xD0, CHR 0xB0, CHR 0xD0, CHR 0xB2,
          CHR 0xD0, CHR 0xBD, CHR 0xD1, CHR 0x8F],
         [CHR 0xD1, CHR 0x87, CHR 0xD0, CHR 0xB5, CHR 0xD1, CHR 0x80, CHR 0xD0, CHR 0xB2,
          CHR 0xD0, CHR 0xBD, CHR 0xD1, CHR 0x8F],
         [CHR 0xD0, CHR 0xBB, CHR 0xD0, CHR 0xB8, CHR 0xD0, CHR 0xBF, CHR 0xD0, CHR 0xBD,
          CHR 0xD1, CHR 0x8F],
         [CHR 0xD1, CHR 0x81, CHR 0xD0, CHR 0xB5, CHR 0xD1, CHR 0x80, CHR 0xD0, CHR 0xBF,
          CHR 0xD0, CHR 0xBD, CHR 0xD1, CHR 0x8F],
         [CHR 0xD0, CHR 0xB2, CHR 0xD0, CHR 0xB5, CHR 0xD1, CHR 0x80, CHR 0xD0, CHR 0xB5,
          CHR 0xD1, CHR 0x81, CHR 0xD0, CHR 0xBD, CHR 0xD1, CHR 0x8F],
         [CHR 0xD0, CHR 0xB6, CHR 0xD0, CHR 0xBE, CHR 0xD0, CHR 0xB2, CHR 0xD1, CHR 0x82,
          CHR 0xD0, CHR 0xBD, CHR 0xD1, CHR 0x8F],
         [CHR 0xD0, CHR 0xBB, CHR 0xD0, CHR 0xB8, CHR 0xD1, CHR 0x81, CHR 0xD1, CHR 0x82,
          CHR 0xD0, CHR 0xBE, CHR 0xD0, CHR 0xBF, CHR 0xD0, CHR 0xB0, CHR 0xD0, CHR 0xB4,
          CHR 0xD0, CHR 0xB0],
         [CHR 0xD0, CHR 0xB3, CHR 0xD1, CHR 0x80, CHR 0xD1, CHR 0x83, CHR 0xD0, CHR 0xB4,
          CHR 0xD0, CHR 0xBD, CHR 0xD1, CHR 0x8F]]"
    by (simp add: months_def)
  have k: "months ! 3 = [CHR 0xD0, CHR 0xBA, CHR 0xD0, CHR 0xB2, CHR 0xD1, CHR 0x96, CHR 0xD1, CHR 0x82,
       CHR 0xD0, CHR 0xBD, CHR 0xD1, CHR 0x8F]"
    by (simp add: months_def)
  have "py_index months 3 = Inr (months ! 3)"
    by (simp add: py_index_def months_length)
  then have c: "month_name \<lparr>day = PInt 16, month = PInt 4, year = PInt 2025\<rparr>
        = Inr (''16 '' @ [CHR 0xD0, CHR 0xBA, CHR 0xD0, CHR 0xB2, CHR 0xD1, CHR 0x96, CHR 0xD1, CHR 0x82,
       CHR 0xD0, CHR 0xBD, CHR 0xD1, CHR 0x8F]
               @ '' 2025'' @ '' '' @ [CHR 0xD1, CHR 0x80, CHR 0xD1, CHR 0x96, CHR 0xD0, CHR 0xBA])"
    unfolding k
    by (simp add: month_name_def and_then_simps str_int_nonneg digit_char_def)
  have r: "nat (m - 1) < length months" using v by (simp add: months_length)
  have g: "length (digits (nat y)) \<le> 4300 \<longrightarrow>
           month_name a =
             Inr (digits (nat d) @ '' '' @ months ! nat (m - 1) @ '' '' @ digits (nat y)
                @ '' '' @ [CHR 0xD1, CHR 0x80, CHR 0xD1, CHR 0x96, CHR 0xD0, CHR 0xBA])"
    unfolding month_name_int [OF assms] by simp
  have b: "4300 < length (digits (nat y)) \<longrightarrow> month_name a = Inl IntStrDigitsValueError"
    unfolding month_name_int [OF assms] by simp
  from g b r tab c show ?thesis by blast
qed

theorem C9_month_name_witness:
  "month_name \<lparr>day = PInt 29, month = PInt 2, year = PInt 2024\<rparr>
     = Inr (''29 '' @ months ! 1 @ '' 2024'' @ '' '' @ [CHR 0xD1, CHR 0x80, CHR 0xD1, CHR 0x96, CHR 0xD0, CHR 0xBA])"
proof -
  have h: "Date_init (IntObj (PInt 29)) (IntObj (PInt 2)) (IntObj (PInt 2024))
             = Inr \<lparr>day = PInt 29, month = PInt 2, year = PInt 2024\<rparr>"
    by (simp add: Date_init_def private_is_leap_year_def)
  have l: "length (digits (nat 2024)) \<le> 4300" by simp
  have s: "digits (nat 29) = ''29''" "digits (nat 2024) = ''2024''"
    by (simp_all add: digit_char_def)
  from C9_month_name [OF h] l show ?thesis
    unfolding s by simp
qed

subsection \<open>C10: years after 9999\<close>

lemma date_new_error:
  "date_new y m d = Inl e \<Longrightarrow> e = DatetimeValueError \<or> e = DatetimeOverflowError"
  by (auto simp: date_new_def fits_c_int_def Let_def split: if_splits)

text \<open>
  Claim C10. The constructor accepts every year from 1 on, with no upper bound; for a
  valid date of a year after 9999, the difference with any date (on either side), the
  offset by any instance of \<open>int\<close> and \<^verbatim>\<open>day_of_week\<close> all raise an error of the calendar
  library instead of returning: its \<open>ValueError\<close> for a year up to 2147483647 and its
  \<open>OverflowError\<close> for a later one, which does not fit a C integer.
\<close>

theorem C10_year_limit:
  assumes "Date_init (IntObj (PInt d)) (IntObj (PInt m)) (IntObj (PInt y)) = Inr a"
    and "9999 < y"
  shows "Date_sub a (DateObj b) = Inl (if y \<le> 2147483647 then DatetimeValueError else DatetimeOverflowError)
    \<and> (\<exists>e. Date_sub b (DateObj a) = Inl e
          \<and> (e = DatetimeValueError \<or> e = DatetimeOverflowError))
    \<and> Date_add a (IntObj n) = Inl (if y \<le> 2147483647 then DatetimeValueError else DatetimeOverflowError)
    \<and> day_of_week a = Inl (if y \<le> 2147483647 then DatetimeValueError else DatetimeOverflowError)
    \<and> class_of DatetimeValueError = ValueError_class
    \<and> class_of DatetimeOverflowError = OverflowError_class
    \<and> (\<forall>y'. 1 \<le> y' \<longrightarrow>
          Date_init (IntObj (PInt 1)) (IntObj (PInt 1)) (IntObj (PInt y'))
            = Inr \<lparr>day = PInt 1, month = PInt 1, year = PInt y'\<rparr>)"
proof -
  note f = as_date_big [OF assms]
  have s1: "Date_sub a (DateObj b) = Inl (if y \<le> 2147483647 then DatetimeValueError else DatetimeOverflowError)"
    by (simp add: Date_sub_def f and_then_simps)
  have s2: "\<exists>e. Date_sub b (DateObj a) = Inl e
          \<and> (e = DatetimeValueError \<or> e = DatetimeOverflowError)"
  proof (cases "as_date b")
    case (Inl e)
    then have "e = DatetimeValueError \<or> e = DatetimeOverflowError"
      unfolding as_date_def by (rule date_new_error)
    with Inl show ?thesis by (simp add: Date_sub_def and_then_simps)
  next
    case (Inr x)
    then show ?thesis by (simp add: Date_sub_def f and_then_simps)
  qed
  have ad: "Date_add a (IntObj n) = Inl (if y \<le> 2147483647 then DatetimeValueError else DatetimeOverflowError)"
    by (simp add: Date_add_def f and_then_simps)
  have w: "day_of_week a = Inl (if y \<le> 2147483647 then DatetimeValueError else DatetimeOverflowError)"
    by (simp add: day_of_week_def f and_then_simps)
  have i: "\<forall>y'. 1 \<le> y' \<longrightarrow>
          Date_init (IntObj (PInt 1)) (IntObj (PInt 1)) (IntObj (PInt y'))
            = Inr \<lparr>day = PInt 1, month = PInt 1, year = PInt y'\<rparr>"
    by (simp add: Date_init_jan1)
  from s1 s2 ad w i show ?thesis by simp
qed

theorem C10_year_limit_witness:
  "Date_init (IntObj (PInt 1)) (IntObj (PInt 1)) (IntObj (PInt 10000))
     = Inr \<lparr>day = PInt 1, month = PInt 1, year = PInt 10000\<rparr>
   \<and> Date_sub \<lparr>day = PInt 1, month = PInt 1, year = PInt 10000\<rparr>
        (DateObj \<lparr>day = PInt 31, month = PInt 12, year = PInt 9999\<rparr>) = Inl DatetimeValueError
   \<and> Date_add \<lparr>day = PInt 1, month = PInt 1, year = PInt 10000\<rparr> (IntObj (PInt (- 1)))
        = Inl DatetimeValueError
   \<and> day_of_week \<lparr>day = PInt 1, month = PInt 1, year = PInt 10000\<rparr> = Inl DatetimeValueError
   \<and> day_of_week \<lparr>day = PInt 1, month = PInt 1, year = PInt 2147483648\<rparr>
        = Inl DatetimeOverflowError"
proof -
  have h: "Date_init (IntObj (PInt 1)) (IntObj (PInt 1)) (IntObj (PInt 10000))
     = Inr \<lparr>day = PInt 1, month = PInt 1, year = PInt 10000\<rparr>"
    "Date_init (IntObj (PInt 1)) (IntObj (PInt 1)) (IntObj (PInt 2147483648))
     = Inr \<lparr>day = PInt 1, month = PInt 1, year = PInt 2147483648\<rparr>"
    by (simp_all add: Date_init_def)
  have y: "(9999::int) < 10000" "(9999::int) < 2147483648" by simp_all
  from C10_year_limit [OF h(1) y(1), of "\<lparr>day = PInt 31, month = PInt 12, year = PInt 9999\<rparr>"
      "PInt (- 1)"] C10_year_limit [OF h(2) y(2)] h
  show ?thesis by simp
qed

end
